theory Spec2Isabelle
  imports Complex_Main "HOL-Library.Char_ord" "HOL-Library.List_Lexorder" "HOL-Library.AList"
begin

section \<open>Strings\<close>

text \<open>
  A Go string is a sequence of bytes, here a \<open>string\<close> (a list of 8-bit characters).
  Go compares strings byte by byte, which is the lexicographic order of
  \<open>HOL-Library.List_Lexorder\<close> over the character order of \<open>HOL-Library.Char_ord\<close>.
\<close>

definition lower :: "char \<Rightarrow> char" where
  \<comment> \<open>an ASCII upper-case letter to lower case, any other byte unchanged\<close>
  "lower c = (if CHR ''A'' \<le> c \<and> c \<le> CHR ''Z'' then char_of (of_char c + (32::nat)) else c)"

definition snake :: "string \<Rightarrow> string" where
  \<comment> \<open>\<open>strings.Replace(s, "-", "_", -1)\<close>\<close>
  "snake s = map (\<lambda>c. if c = CHR ''-'' then CHR ''_'' else c) s"

definition Trim :: "string \<Rightarrow> string \<Rightarrow> string" where
  \<comment> \<open>\<open>strings.Trim(s, cutset)\<close> for an ASCII cutset: leading and trailing bytes of the
      cutset are removed\<close>
  "Trim s cutset =
     rev (dropWhile (\<lambda>c. c \<in> set cutset) (rev (dropWhile (\<lambda>c. c \<in> set cutset) s)))"

definition isDigit :: "char \<Rightarrow> bool" where
  "isDigit c = (CHR ''0'' \<le> c \<and> c \<le> CHR ''9'')"

definition isHexLetter :: "char \<Rightarrow> bool" where
  "isHexLetter c = (CHR ''a'' \<le> lower c \<and> lower c \<le> CHR ''f'')"

definition digitVal :: "char \<Rightarrow> int" where
  "digitVal c = (if isDigit c then of_char c - 48 else of_char (lower c) - 87)"

definition number :: "int \<Rightarrow> string \<Rightarrow> int" where
  \<comment> \<open>the value of a digit string in the given base\<close>
  "number base ds = foldl (\<lambda>n c. base * n + digitVal c) 0 ds"

function digits :: "int \<Rightarrow> string" where
  \<comment> \<open>the decimal digits of a number that is not negative\<close>
  "digits n = (if n < 10 then [char_of (48 + n)] else digits (n div 10) @ [char_of (48 + n mod 10)])"
  by pat_completeness auto
termination
  by (relation "measure nat") auto

definition Itoa :: "int \<Rightarrow> string" where
  \<comment> \<open>the decimal text of an integer, as \<open>%v\<close> prints it\<close>
  "Itoa i = (if i < 0 then CHR ''-'' # digits (- i) else digits i)"

section \<open>The parsers of package strconv\<close>

text \<open>
  \<open>cast\<close> calls \<open>strconv.ParseInt(s, 10, 64)\<close>, \<open>strconv.ParseUint(s, 10, 64)\<close>,
  \<open>strconv.ParseFloat(s, 64)\<close> and \<open>strconv.ParseBool(s)\<close> and looks only at whether
  they return an error. They belong to Go's standard library; the definitions below follow
  its documentation. \<open>None\<close> is a non-nil error.
\<close>

definition ParseUint :: "string \<Rightarrow> int option" where
  \<comment> \<open>base 10, 64 bits: a non-empty string of decimal digits, no sign, no underscore,
      below \<open>2^64\<close>\<close>
  "ParseUint s =
     (if s \<noteq> [] \<and> list_all isDigit s \<and> number 10 s < 2 ^ 64 then Some (number 10 s) else None)"

definition ParseInt :: "string \<Rightarrow> int option" where
  \<comment> \<open>base 10, 64 bits: an optional sign, then decimal digits, within the range of int64\<close>
  "ParseInt s =
     (case s of
        [] \<Rightarrow> None
      | c # cs \<Rightarrow>
          (let neg = (c = CHR ''-'');
               ds = (if c = CHR ''+'' \<or> c = CHR ''-'' then cs else s);
               un = number 10 ds
           in if ds = [] \<or> \<not> list_all isDigit ds then None
              else if \<not> neg \<and> un \<ge> 2 ^ 63 then None
              else if neg \<and> un > 2 ^ 63 then None
              else Some (if neg then - un else un)))"

definition ParseBool :: "string \<Rightarrow> bool option" where
  "ParseBool s =
     (if s \<in> set [''1'', ''t'', ''T'', ''TRUE'', ''true'', ''True''] then Some True
      else if s \<in> set [''0'', ''f'', ''F'', ''FALSE'', ''false'', ''False''] then Some False
      else None)"

text \<open>
  A float64 is kept as the exact rational its literal denotes (\<open>Finite q\<close> stands for the
  binary64 nearest to \<open>q\<close>; the sign of zero is not kept), or as one of the three special
  values.
\<close>

datatype float64 = Finite rat | PosInf | NegInf | NaN

definition special :: "string \<Rightarrow> float64 option" where
  \<comment> \<open>"inf" and "infinity" with an optional sign, and "nan", in any case\<close>
  "special s =
     (let l = map lower s
      in if l \<in> set [''inf'', ''+inf'', ''infinity'', ''+infinity''] then Some PosInf
         else if l \<in> set [''-inf'', ''-infinity''] then Some NegInf
         else if l = ''nan'' then Some NaN
         else None)"

fun underscoreOK_from :: "bool \<Rightarrow> char \<Rightarrow> string \<Rightarrow> bool" where
  \<comment> \<open>\<open>saw\<close> is the class of the last character: \<open>^\<close> the beginning, \<open>0\<close> a digit or the
      base prefix, \<open>_\<close> an underscore, \<open>!\<close> anything else\<close>
  "underscoreOK_from hex saw [] = (saw \<noteq> CHR ''_'')"
| "underscoreOK_from hex saw (c # cs) =
     (if isDigit c \<or> (hex \<and> isHexLetter c) then underscoreOK_from hex (CHR ''0'') cs
      else if c = CHR ''_'' then saw = CHR ''0'' \<and> underscoreOK_from hex (CHR ''_'') cs
      else saw \<noteq> CHR ''_'' \<and> underscoreOK_from hex (CHR ''!'') cs)"

definition underscoreOK :: "string \<Rightarrow> bool" where
  \<comment> \<open>an underscore only between digits, or between a base prefix and a digit\<close>
  "underscoreOK s0 =
     (let s = (case s0 of c # cs \<Rightarrow> if c = CHR ''-'' \<or> c = CHR ''+'' then cs else s0 | [] \<Rightarrow> s0)
      in case s of
           a # b # cs \<Rightarrow>
             if a = CHR ''0'' \<and> lower b \<in> set ''box''
             then underscoreOK_from (lower b = CHR ''x'') (CHR ''0'') cs
             else underscoreOK_from False (CHR ''^'') s
         | _ \<Rightarrow> underscoreOK_from False (CHR ''^'') s)"

fun readMantissa :: "bool \<Rightarrow> bool \<Rightarrow> string \<Rightarrow> string \<Rightarrow> string \<Rightarrow> string \<times> string \<times> string" where
  \<comment> \<open>the digit loop of \<open>readFloat\<close>: the digits before the point, the digits after it, and
      what is left; underscores are skipped and a second point ends the loop\<close>
  "readMantissa hex sawdot ip fp [] = (ip, fp, [])"
| "readMantissa hex sawdot ip fp (c # cs) =
     (if c = CHR ''_'' then readMantissa hex sawdot ip fp cs
      else if c = CHR ''.'' then
        (if sawdot then (ip, fp, c # cs) else readMantissa hex True ip fp cs)
      else if isDigit c \<or> (hex \<and> isHexLetter c) then
        (if sawdot then readMantissa hex sawdot ip (fp @ [c]) cs
         else readMantissa hex sawdot (ip @ [c]) fp cs)
      else (ip, fp, c # cs))"

fun readExponent :: "int \<Rightarrow> string \<Rightarrow> int \<times> string" where
  \<comment> \<open>the exponent's digits, underscores skipped; the value stops growing at 10000\<close>
  "readExponent e [] = (e, [])"
| "readExponent e (c # cs) =
     (if c = CHR ''_'' then readExponent e cs
      else if isDigit c then readExponent (if e < 10000 then e * 10 + digitVal c else e) cs
      else (e, c # cs))"

definition scale :: "int \<Rightarrow> int \<Rightarrow> rat" where
  \<comment> \<open>\<open>b\<close> to the power \<open>e\<close>, for an exponent of either sign\<close>
  "scale b e = (if e < 0 then 1 / of_int (b ^ nat (- e)) else of_int (b ^ nat e))"

definition overflows :: "int \<Rightarrow> int \<Rightarrow> int \<Rightarrow> bool" where
  \<comment> \<open>\<open>m * b^e\<close> rounds beyond the largest finite binary64, which is a range error: it is
      at least \<open>2^1024 - 2^970\<close>\<close>
  "overflows m b e =
     (if e < 0 then m \<ge> (2 ^ 1024 - 2 ^ 970) * b ^ nat (- e)
      else m * b ^ nat e \<ge> 2 ^ 1024 - 2 ^ 970)"

definition readFloat :: "string \<Rightarrow> rat option" where
  "readFloat s0 =
     (let neg = (case s0 of c # _ \<Rightarrow> c = CHR ''-'' | [] \<Rightarrow> False);
          s = (case s0 of c # cs \<Rightarrow> if c = CHR ''+'' \<or> c = CHR ''-'' then cs else s0 | [] \<Rightarrow> s0);
          hex = (case s of a # b # _ # _ \<Rightarrow> a = CHR ''0'' \<and> lower b = CHR ''x'' | _ \<Rightarrow> False);
          (ip, fp, rest) = readMantissa hex False [] [] (if hex then drop 2 s else s);
          mant = number (if hex then 16 else 10) (ip @ fp);
          dp = - int (length fp) * (if hex then 4 else 1);
          b = (if hex then 2 else 10)
      in if ip @ fp = [] then None
         else
           (case rest of
              [] \<Rightarrow>
                if hex then None
                else if CHR ''_'' \<in> set s0 \<and> \<not> underscoreOK s0 then None
                else if overflows mant b dp then None
                else Some ((if neg then - 1 else 1) * of_int mant * scale b dp)
            | [x] \<Rightarrow> None
            | x # y # zs \<Rightarrow>
                if lower x = (if hex then CHR ''p'' else CHR ''e'') then
                  (let esign = (if y = CHR ''-'' then - 1 else 1);
                       ds = (if y = CHR ''+'' \<or> y = CHR ''-'' then zs else y # zs)
                   in case ds of
                        [] \<Rightarrow> None
                      | d # _ \<Rightarrow>
                          if \<not> isDigit d then None
                          else
                            (let (e, rest') = readExponent 0 ds
                             in if rest' \<noteq> [] then None
                                else if CHR ''_'' \<in> set s0 \<and> \<not> underscoreOK s0 then None
                                else if overflows mant b (dp + e * esign) then None
                                else Some ((if neg then - 1 else 1) * of_int mant
                                             * scale b (dp + e * esign))))
                else None))"

definition ParseFloat :: "string \<Rightarrow> float64 option" where
  "ParseFloat s =
     (case special s of
        Some f \<Rightarrow> Some f
      | None \<Rightarrow> (case readFloat s of Some q \<Rightarrow> Some (Finite q) | None \<Rightarrow> None))"

section \<open>Values, errors and configuration\<close>

text \<open>
  The dynamic values (\<open>interface{}\<close>) that the decoder builds and the encoder accepts. A Go
  map has unique keys and no order; it is kept as an association list that is only changed by
  \<open>AList.update\<close>, and the order of the list stands for the order in which a \<open>range\<close>
  loop happens to visit the entries. Values of types the package does not look into carry
  what the standard library reports about them.
\<close>

datatype gval =
    Nil                                   \<comment> \<open>the nil interface value\<close>
  | Str string                            \<comment> \<open>\<open>string\<close>\<close>
  | Bytes string                          \<comment> \<open>\<open>[]byte\<close>\<close>
  | Bool bool                             \<comment> \<open>\<open>bool\<close>\<close>
  | Float64 float64                       \<comment> \<open>\<open>float64\<close>\<close>
  | Float32 float64                       \<comment> \<open>\<open>float32\<close>\<close>
  | IntV int                              \<comment> \<open>\<open>int\<close>\<close>
  | Int32 int                             \<comment> \<open>\<open>int32\<close>\<close>
  | Int64 int                             \<comment> \<open>\<open>int64\<close>\<close>
  | Uint64 int                            \<comment> \<open>\<open>uint64\<close>\<close>
  | JsonNumber string                     \<comment> \<open>\<open>json.Number\<close>, a string type\<close>
  | MapV "(string \<times> gval) list"          \<comment> \<open>\<open>map[string]interface{}\<close>\<close>
  | ListV "gval list"                     \<comment> \<open>\<open>[]interface{}\<close>\<close>
  | StrList "string list"                 \<comment> \<open>\<open>[]string\<close>\<close>
  | ForeignMap string string "(string \<times> gval) list"
      \<comment> \<open>a map of any other type: the name of the type, its \<open>%v\<close> text and its entries in
          the order of \<open>MapKeys\<close>, each key as \<open>fmt.Sprint\<close> prints it\<close>
  | TypedSlice string string "string + string" "string + string"
      \<comment> \<open>a slice of one of the other listed element types, such as
          \<open>[]map[string]interface{}\<close> or \<open>[]float64\<close>: the name of the type, its \<open>%v\<close>
          text, what \<open>xml.Marshal\<close> returns for it (\<open>Inl\<close> the error's message) and what
          \<open>xml.MarshalIndent\<close> returns for it at the padding where it is written\<close>
  | Struct string string "string + string"
      \<comment> \<open>a struct: the name of the type, its \<open>%v\<close> text and what \<open>xml.Marshal\<close> returns
          for it\<close>
  | Other string string
      \<comment> \<open>a value of any other type: the name of the type and the text \<open>fmt.Sprint\<close>
          prints for it\<close>

type_synonym gmap = "(string \<times> gval) list"

text \<open>
  A Go \<open>error\<close>. \<open>io.EOF\<close> is a sentinel that callers compare by identity; every other
  error is known by its message. A run-time panic is not a return value: it is the
  distinguished outcome \<open>Panic\<close>, which no handler of the package ever sees.
\<close>

datatype error = EOF | Error string | Panic string

text \<open>
  What \<open>xml.Decoder.Token\<close> returns, as far as the package looks at it. Of a name only the
  local part is read, so a start element is its local name and its attributes as pairs of
  local name and value. A stream of tokens is the list of what successive calls return:
  a token, or an error other than \<open>io.EOF\<close> with its message; at the end of the list
  \<open>Token\<close> returns \<open>io.EOF\<close>.
\<close>

datatype token =
    StartElement string "(string \<times> string) list"
  | EndElement string
  | CharData string
  | Comment string
  | ProcInst string string
  | Directive string

datatype event = Tok token | Fail string

text \<open>
  The package-level variables that configure the package, with the values they have when
  the program starts. \<open>lenAttrPrefix\<close> is kept equal to the length of \<open>attrPrefix\<close> by
  every function that sets it. \<open>xmlEscapeChars\<close> and \<open>xmlEscapeCharsDecoder\<close> are
  declared in another file of the repository.
\<close>

record config =
  textK :: string
  attrPrefix :: string
  includeTagSeqNum :: bool
  lowerCase :: bool
  trimRunes :: string
  snakeCaseKeys :: bool
  castToInt :: bool
  handleXMPPStreamTag :: bool
  decodeSimpleValuesAsMap :: bool
  castNanInf :: bool
  castToFloat :: bool
  castToBool :: bool
  checkTagToSkip :: "(string \<Rightarrow> bool) option"
  useGoXmlEmptyElemSyntax :: bool
  xmlCheckIsValid :: bool
  xmlEscapeChars :: bool
  xmlEscapeCharsDecoder :: bool

definition defaults :: config where
  "defaults =
     \<lparr> textK = ''$'', attrPrefix = ''-'', includeTagSeqNum = False, lowerCase = False,
       trimRunes = [CHR 0x09, CHR 0x0D, CHR 0x08, CHR 0x0A, CHR '' ''],
       snakeCaseKeys = False, castToInt = False, handleXMPPStreamTag = False,
       decodeSimpleValuesAsMap = False, castNanInf = False, castToFloat = True,
       castToBool = True, checkTagToSkip = None, useGoXmlEmptyElemSyntax = False,
       xmlCheckIsValid = False, xmlEscapeChars = False, xmlEscapeCharsDecoder = False \<rparr>"

definition lenAttrPrefix :: "config \<Rightarrow> nat" where
  "lenAttrPrefix cfg = length (attrPrefix cfg)"

definition DefaultRootTag :: string where
  "DefaultRootTag = ''doc''"

text \<open>
  What the package takes from Go's standard library as it is: how \<open>%v\<close> prints a
  floating-point number of a given bit size, what successive calls of
  \<open>xml.Decoder.Token\<close> return on a new decoder over given bytes (the stream of tokens of
  the bytes), and the mapping of the letters of Unicode to lower case,
  \<open>strings.Map(unicode.ToLower, s)\<close>.
\<close>

record golib =
  FormatFloat :: "nat \<Rightarrow> float64 \<Rightarrow> string"
  Tokens :: "string \<Rightarrow> event list"
  unicodeToLower :: "string \<Rightarrow> string"

definition ToLower :: "golib \<Rightarrow> string \<Rightarrow> string" where
  \<comment> \<open>\<open>strings.ToLower\<close>: in a string of ASCII bytes only, the letters \<open>A\<close> to \<open>Z\<close> are
      lowered byte by byte; any other string is mapped rune by rune through
      \<open>unicode.ToLower\<close>\<close>
  "ToLower lib s =
     (if list_all (\<lambda>c. of_char c < (128::nat)) s then map lower s else unicodeToLower lib s)"

section \<open>The caster\<close>

definition cast :: "config \<Rightarrow> golib \<Rightarrow> string \<Rightarrow> bool \<Rightarrow> string \<Rightarrow> gval" where
  "cast cfg lib s r t =
     (if (case checkTagToSkip cfg of None \<Rightarrow> False | Some skip \<Rightarrow> t \<noteq> [] \<and> skip t) then Str s
      else if r then
        (if \<not> castNanInf cfg \<and> ToLower lib s \<in> set [''nan'', ''inf'', ''-inf''] then Str s
         else
           (case (if castToInt cfg then ParseInt s else None) of
              Some f \<Rightarrow> Int64 f
            | None \<Rightarrow>
               (case (if castToInt cfg then ParseUint s else None) of
                  Some f \<Rightarrow> Uint64 f
                | None \<Rightarrow>
                   (case (if castToFloat cfg then ParseFloat s else None) of
                      Some f \<Rightarrow> Float64 f
                    | None \<Rightarrow>
                       (if castToBool cfg \<and> length s > 0 \<and> length s < 6
                           \<and> take 1 s \<in> set [''t'', ''T'', ''f'', ''F'']
                        then (case ParseBool s of Some b \<Rightarrow> Bool b | None \<Rightarrow> Str s)
                        else Str s)))))
      else Str s)"

text \<open>
  The caster as the specification words it: a fixed list of interpretations, tried in order,
  of which the first that succeeds gives the result; the string itself when none does.
\<close>

definition nanInfScreen :: "config \<Rightarrow> golib \<Rightarrow> string \<Rightarrow> gval option" where
  "nanInfScreen cfg lib s =
     (if \<not> castNanInf cfg \<and> ToLower lib s \<in> set [''nan'', ''inf'', ''-inf''] then Some (Str s)
      else None)"

definition asSigned :: "config \<Rightarrow> string \<Rightarrow> gval option" where
  "asSigned cfg s = (if castToInt cfg then map_option Int64 (ParseInt s) else None)"

definition asUnsigned :: "config \<Rightarrow> string \<Rightarrow> gval option" where
  "asUnsigned cfg s = (if castToInt cfg then map_option Uint64 (ParseUint s) else None)"

definition asFloat :: "config \<Rightarrow> string \<Rightarrow> gval option" where
  "asFloat cfg s = (if castToFloat cfg then map_option Float64 (ParseFloat s) else None)"

definition asBool :: "config \<Rightarrow> string \<Rightarrow> gval option" where
  "asBool cfg s =
     (if castToBool cfg \<and> 1 \<le> length s \<and> length s \<le> 5
         \<and> (case s of c # _ \<Rightarrow> c \<in> set ''tTfF'' | [] \<Rightarrow> False)
      then map_option Bool (ParseBool s) else None)"

fun first_success :: "('a \<Rightarrow> 'b option) list \<Rightarrow> 'a \<Rightarrow> 'b option" where
  "first_success [] x = None"
| "first_success (f # fs) x = (case f x of Some y \<Rightarrow> Some y | None \<Rightarrow> first_success fs x)"

definition interpretations :: "config \<Rightarrow> golib \<Rightarrow> (string \<Rightarrow> gval option) list" where
  "interpretations cfg lib = [nanInfScreen cfg lib, asSigned cfg, asUnsigned cfg, asFloat cfg, asBool cfg]"

definition cast_in_order :: "config \<Rightarrow> golib \<Rightarrow> string \<Rightarrow> gval" where
  "cast_in_order cfg lib s =
     (case first_success (interpretations cfg lib) s of Some v \<Rightarrow> v | None \<Rightarrow> Str s)"

definition is_number :: "gval \<Rightarrow> bool" where
  "is_number v = (case v of Float64 _ \<Rightarrow> True | Int64 _ \<Rightarrow> True | Uint64 _ \<Rightarrow> True | _ \<Rightarrow> False)"

definition is_bool :: "gval \<Rightarrow> bool" where
  "is_bool v = (case v of Bool _ \<Rightarrow> True | _ \<Rightarrow> False)"

section \<open>The decoder\<close>

definition escapeChars :: "string \<Rightarrow> string" where
  \<comment> \<open>Modelled from the spec: \<open>escapeChars\<close> is defined in a file of the repository that is
      not under src/. The specification has it replace \<open>&\<close>, \<open><\<close>, \<open>>\<close>, the double quote and
      the apostrophe by their entities, without escaping again the ampersand of an entity
      it has just written.\<close>
  "escapeChars s =
     concat (map (\<lambda>c. if c = CHR ''&'' then ''&amp;''
                       else if c = CHR ''<'' then ''&lt;''
                       else if c = CHR ''>'' then ''&gt;''
                       else if c = CHR 0x22 then ''&quot;''
                       else if c = CHR 0x27 then ''&apos;''
                       else [c]) s)"

definition normKey :: "config \<Rightarrow> golib \<Rightarrow> string \<Rightarrow> string" where
  \<comment> \<open>the first lines of \<open>xmlToMapParser\<close>: the key in lower case, then in snake case,
      as configured\<close>
  "normKey cfg lib skey =
     (let skey = (if lowerCase cfg then ToLower lib skey else skey)
      in if snakeCaseKeys cfg then snake skey else skey)"

definition attrKey :: "config \<Rightarrow> golib \<Rightarrow> string \<Rightarrow> string" where
  "attrKey cfg lib name =
     (let key = attrPrefix cfg @ (if snakeCaseKeys cfg then snake name else name)
      in if lowerCase cfg then ToLower lib key else key)"

definition loadAttrs :: "config \<Rightarrow> golib \<Rightarrow> bool \<Rightarrow> (string \<times> string) list \<Rightarrow> gmap" where
  \<comment> \<open>the loop over the attributes: \<open>na[key] = cast(v.Value, r, key)\<close>\<close>
  "loadAttrs cfg lib r a =
     fold (\<lambda>(name, v) na.
             AList.update (attrKey cfg lib name)
               (cast cfg lib (if xmlEscapeCharsDecoder cfg then escapeChars v else v) r
                  (attrKey cfg lib name)) na)
          a []"

definition tagSeqNum :: "config \<Rightarrow> gval \<Rightarrow> int \<Rightarrow> gval \<times> int" where
  \<comment> \<open>the \<open>includeTagSeqNum\<close> block: a map gets the entry \<open>_seq\<close>, a simple value is
      wrapped in a map under the text key with \<open>_seq\<close>, a list and nil are left alone\<close>
  "tagSeqNum cfg val seq =
     (if includeTagSeqNum cfg then
        (case val of
           ListV _ \<Rightarrow> (val, seq)
         | MapV m \<Rightarrow> (MapV (AList.update ''_seq'' (IntV seq) m), seq + 1)
         | Nil \<Rightarrow> (val, seq)
         | _ \<Rightarrow> (MapV (AList.update ''_seq'' (IntV seq) [(textK cfg, val)]), seq + 1))
      else (val, seq))"

definition promote :: "gmap \<Rightarrow> string \<Rightarrow> gval \<Rightarrow> gmap" where
  \<comment> \<open>\<open>if v, ok := na[key]; ok { ... na[key] = append(a, val) } else { na[key] = val }\<close>\<close>
  "promote na key val =
     (case map_of na key of
        Some v \<Rightarrow>
          AList.update key (ListV ((case v of ListV a \<Rightarrow> a | _ \<Rightarrow> [v]) @ [val])) na
      | None \<Rightarrow> AList.update key val na)"

definition nil_map_panic :: error where
  "nil_map_panic = Panic ''assignment to entry in nil map''"

text \<open>
  \<open>xmlToMapParser\<close> returns a map and an error, and reads from the decoder it is given; the
  model returns the pair and the events that are left. \<open>tokenLoop\<close> is its \<open>for\<close> loop,
  with the local variables \<open>n\<close>, \<open>na\<close> and \<open>seq\<close>. The two maps are allocated only when
  \<open>skey\<close> is not empty, and \<open>skey\<close> does not change during the loop: a write to \<open>n\<close> or
  \<open>na\<close> while \<open>skey\<close> is empty is a write to a nil map, which panics.
\<close>

function (sequential)
  xmlToMapParser :: "config \<Rightarrow> golib \<Rightarrow> string \<Rightarrow> (string \<times> string) list \<Rightarrow> event list \<Rightarrow> bool
      \<Rightarrow> (gmap option \<times> error option) \<times> event list"
  and tokenLoop :: "config \<Rightarrow> golib \<Rightarrow> bool \<Rightarrow> string \<Rightarrow> gmap \<Rightarrow> gmap \<Rightarrow> int \<Rightarrow> event list
      \<Rightarrow> (gmap option \<times> error option) \<times> event list"
where
  "xmlToMapParser cfg lib skey a p r =
     (if handleXMPPStreamTag cfg \<and> normKey cfg lib skey = ''stream''
      then ((Some [(normKey cfg lib skey, MapV (loadAttrs cfg lib r a))], None), p)
      else tokenLoop cfg lib r (normKey cfg lib skey) []
             (if normKey cfg lib skey \<noteq> [] then loadAttrs cfg lib r a else []) 0 p)"
| "tokenLoop cfg lib r skey n na seq [] = ((None, Some EOF), [])"
| "tokenLoop cfg lib r skey n na seq (Fail e # p) =
     ((None, Some (Error (''xml.Decoder.Token() - '' @ e))), p)"
| "tokenLoop cfg lib r skey n na seq (Tok (StartElement name attrs) # p) =
     (if skey = [] then xmlToMapParser cfg lib name attrs p r
      else
        (case xmlToMapParser cfg lib name attrs p r of
           ((nn, Some err), p') \<Rightarrow> ((None, Some err), p')
         | ((nn, None), p') \<Rightarrow>
             (case (case nn of Some (kv # _) \<Rightarrow> kv | _ \<Rightarrow> ([], Nil)) of
                (key, val) \<Rightarrow>
                  tokenLoop cfg lib r skey n
                    (promote na key (fst (tagSeqNum cfg val seq)))
                    (snd (tagSeqNum cfg val seq)) p')))"
| "tokenLoop cfg lib r skey n na seq (Tok (EndElement name) # p) =
     (if skey = [] then ((None, Some nil_map_panic), p)
      else if length n = 0 then
        ((Some [(skey, if length na > 0 then MapV na else Str [])], None), p)
      else if length n = 1 \<and> length na > 0 then
        ((Some (AList.update skey
                  (MapV (fold (\<lambda>(k, v) na. AList.update (textK cfg) v na) n na)) n), None), p)
      else ((Some n, None), p))"
| "tokenLoop cfg lib r skey n na seq (Tok (CharData d) # p) =
     (case (if xmlEscapeCharsDecoder cfg then escapeChars (Trim d (trimRunes cfg))
            else Trim d (trimRunes cfg)) of
        tt \<Rightarrow>
          if length tt > 0 then
            (if length na > 0 \<or> decodeSimpleValuesAsMap cfg then
               (if skey = [] then ((None, Some nil_map_panic), p)
                else tokenLoop cfg lib r skey n
                       (AList.update (textK cfg) (cast cfg lib tt r (textK cfg)) na) seq p)
             else if skey \<noteq> [] then
               tokenLoop cfg lib r skey (AList.update skey (cast cfg lib tt r skey) n) na seq p
             else tokenLoop cfg lib r skey n na seq p)
          else tokenLoop cfg lib r skey n na seq p)"
| "tokenLoop cfg lib r skey n na seq (Tok (Comment c) # p) = tokenLoop cfg lib r skey n na seq p"
| "tokenLoop cfg lib r skey n na seq (Tok (ProcInst t i) # p) = tokenLoop cfg lib r skey n na seq p"
| "tokenLoop cfg lib r skey n na seq (Tok (Directive d) # p) = tokenLoop cfg lib r skey n na seq p"
  by pat_completeness auto


lemma parser_length:
  "xmlToMapParser_tokenLoop_dom (Inl (cfg, lib, skey, a, p, r)) \<Longrightarrow>
     length (snd (xmlToMapParser cfg lib skey a p r)) \<le> length p"
  "xmlToMapParser_tokenLoop_dom (Inr (cfg, lib, r, skey, n, na, seq, p)) \<Longrightarrow>
     length (snd (tokenLoop cfg lib r skey n na seq p)) \<le> length p"
proof (induct rule: xmlToMapParser_tokenLoop.pinduct)
  case (1 cfg lib skey a p r)
  then show ?case by (simp add: xmlToMapParser.psimps)
next
  case (2 cfg lib r skey n na seq)
  then show ?case by (simp add: tokenLoop.psimps)
next
  case (3 cfg lib r skey n na seq e p)
  then show ?case by (simp add: tokenLoop.psimps)
next
  case (4 cfg lib r skey n na seq name attrs p)
  show ?case
  proof (cases "skey = []")
    case True
    with 4 show ?thesis by (simp add: tokenLoop.psimps)
  next
    case False
    obtain nn err p' where x: "xmlToMapParser cfg lib name attrs p r = ((nn, err), p')"
      by (metis prod.exhaust)
    with 4(3) False have l: "length p' \<le> length p" by simp
    show ?thesis
    proof (cases err)
      case (Some e)
      with 4(1) False x l show ?thesis by (simp add: tokenLoop.psimps)
    next
      case None
      obtain key val where kv: "(case nn of Some (kv # _) \<Rightarrow> kv | _ \<Rightarrow> ([], Nil)) = (key, val)"
        by (metis prod.exhaust)
      have "length (snd (tokenLoop cfg lib r skey n (promote na key (fst (tagSeqNum cfg val seq)))
                (snd (tagSeqNum cfg val seq)) p')) \<le> length p'"
        using 4(4) [OF False x [symmetric] refl None kv [symmetric]] .
      with 4(1) False x None kv l show ?thesis by (simp add: tokenLoop.psimps)
    qed
  qed
next
  case (5 cfg lib r skey n na seq name p)
  then show ?case by (simp add: tokenLoop.psimps)
next
  case (6 cfg lib r skey n na seq d p)
  then show ?case by (auto simp add: tokenLoop.psimps le_SucI)
next
  case (7 cfg lib r skey n na seq c p)
  then show ?case by (simp add: tokenLoop.psimps)
next
  case (8 cfg lib r skey n na seq t i p)
  then show ?case by (simp add: tokenLoop.psimps)
next
  case (9 cfg lib r skey n na seq d p)
  then show ?case by (simp add: tokenLoop.psimps)
qed

termination xmlToMapParser
proof (relation "measure (\<lambda>x. case x of
                    Inl (cfg, lib, skey, a, p, r) \<Rightarrow> 2 * length p + 1
                  | Inr (cfg, lib, r, skey, n, na, seq, p) \<Rightarrow> 2 * length p)")
  fix cfg :: config and lib :: golib and r :: bool and skey :: string and n na :: gmap and seq :: int
    and name attrs p x y xa ya xb yaa
  assume "(x, y) = xmlToMapParser cfg lib name attrs p r"
    and "xmlToMapParser_tokenLoop_dom (Inl (cfg, lib, name, attrs, p, r))"
  then have "length y \<le> length p"
    using parser_length(1) [of cfg lib name attrs p r] by (metis snd_conv)
  then show "(Inr (cfg, lib, r, skey, n, promote na xb (fst (tagSeqNum cfg yaa seq)),
                snd (tagSeqNum cfg yaa seq), y),
             Inr (cfg, lib, r, skey, n, na, seq, Tok (StartElement name attrs) # p))
           \<in> measure (\<lambda>x. case x of
                    Inl (cfg, lib, skey, a, p, r) \<Rightarrow> 2 * length p + 1
                  | Inr (cfg, lib, r, skey, n, na, seq, p) \<Rightarrow> 2 * length p)"
    by simp
qed auto

declare xmlToMapParser.simps [simp del]

fun rootKey :: "config \<Rightarrow> golib \<Rightarrow> event list \<Rightarrow> string" where
  \<comment> \<open>the key of the first start element that has a name\<close>
  "rootKey cfg lib [] = []"
| "rootKey cfg lib (Tok (StartElement name attrs) # p) =
     (if normKey cfg lib name \<noteq> [] then normKey cfg lib name else rootKey cfg lib p)"
| "rootKey cfg lib (e # p) = rootKey cfg lib p"

definition is_ListV :: "gval \<Rightarrow> bool" where
  "is_ListV v = (case v of ListV _ \<Rightarrow> True | _ \<Rightarrow> False)"

definition returns_one :: "string \<Rightarrow> gmap option \<times> error option \<Rightarrow> bool" where
  \<comment> \<open>what a call returns: a map with the one key \<open>k\<close>, whose value is not a list, and no
      error; or no map and an error\<close>
  "returns_one k res =
     ((\<exists>v. res = (Some [(k, v)], None) \<and> \<not> is_ListV v) \<or> (\<exists>e. res = (None, Some e)))"

lemma decoder_consumes:
  "length (snd (xmlToMapParser cfg lib skey a p r)) \<le> length p \<and>
   (snd (fst (xmlToMapParser cfg lib skey a p r)) \<noteq> Some EOF \<longrightarrow>
    \<not> (handleXMPPStreamTag cfg \<and> normKey cfg lib skey = ''stream'') \<longrightarrow>
      length (snd (xmlToMapParser cfg lib skey a p r)) < length p)"
  "length (snd (tokenLoop cfg lib r skey n na seq p)) \<le> length p \<and>
   (snd (fst (tokenLoop cfg lib r skey n na seq p)) \<noteq> Some EOF \<longrightarrow>
      length (snd (tokenLoop cfg lib r skey n na seq p)) < length p)"
proof (induct cfg lib skey a p r and cfg lib r skey n na seq p rule: xmlToMapParser_tokenLoop.induct)
  case (1 cfg lib skey a p r)
  then show ?case by (auto simp: xmlToMapParser.simps)
next
  case (2 cfg lib r skey n na seq)
  then show ?case by simp
next
  case (3 cfg lib r skey n na seq e p)
  then show ?case by simp
next
  case (4 cfg lib r skey n na seq name attrs p)
  show ?case
  proof (cases "skey = []")
    case True
    with 4(1) show ?thesis by auto
  next
    case False
    obtain nn err p' where x: "xmlToMapParser cfg lib name attrs p r = ((nn, err), p')"
      by (metis prod.exhaust)
    with 4(2) [OF False] have l: "length p' \<le> length p" by simp
    show ?thesis
    proof (cases err)
      case (Some e')
      with False x l show ?thesis by simp
    next
      case None
      obtain key val where kv: "(case nn of Some (kv # _) \<Rightarrow> kv | _ \<Rightarrow> ([], Nil)) = (key, val)"
        by (metis prod.exhaust)
      note ih = 4(3) [OF False x [symmetric] refl None kv [symmetric]]
      with False x None kv l show ?thesis by auto
    qed
  qed
next
  case (5 cfg lib r skey n na seq name p)
  then show ?case by (auto simp: nil_map_panic_def)
next
  case (6 cfg lib r skey n na seq d p)
  then show ?case by (auto simp: nil_map_panic_def)
next
  case (7 cfg lib r skey n na seq c p)
  then show ?case by auto
next
  case (8 cfg lib r skey n na seq t i p)
  then show ?case by auto
next
  case (9 cfg lib r skey n na seq d p)
  then show ?case by auto
qed

definition NewMapXmlReader :: "config \<Rightarrow> golib \<Rightarrow> event list \<Rightarrow> bool list
    \<Rightarrow> (gmap option \<times> error option) \<times> event list" where
  \<comment> \<open>a new decoder on the reader, then \<open>xmlToMapParser("", nil, p, r)\<close>; \<open>r\<close> is the optional
      argument when exactly one is given. The reader is wrapped so that the decoder takes
      from it no more than it parses: the events left are the reader's.\<close>
  "NewMapXmlReader cfg lib xmlReader cast_arg =
     xmlToMapParser cfg lib [] [] xmlReader (case cast_arg of [c] \<Rightarrow> c | _ \<Rightarrow> False)"

definition message :: "error \<Rightarrow> string" where
  \<comment> \<open>\<open>err.Error()\<close>\<close>
  "message err = (case err of EOF \<Rightarrow> ''EOF'' | Error m \<Rightarrow> m | Panic m \<Rightarrow> m)"

lemma NewMapXmlReader_consumes:
  assumes "NewMapXmlReader cfg lib xmlReader c = ((m, merr), rest)" and "merr \<noteq> Some EOF"
  shows "length rest < length xmlReader"
proof -
  have "normKey cfg lib [] \<noteq> ''stream''"
    by (simp add: normKey_def ToLower_def snake_def)
  with assms decoder_consumes(1) [of cfg lib "[]" "[]" xmlReader "case c of [c] \<Rightarrow> c | _ \<Rightarrow> False"]
  show ?thesis
    by (simp add: NewMapXmlReader_def)
qed

text \<open>
  \<open>HandleXmlReader\<close> decodes one document after the other from the same reader. Its loop
  is \<open>HandleXmlReader_from\<close>, whose argument \<open>n\<close> is the number of documents asked for
  so far. Every round takes at least one event from the reader or stops at its end, so the
  loop ends on a finite stream. A panic of the decoder is not an error value: no handler
  sees it.
\<close>

function HandleXmlReader_from :: "config \<Rightarrow> golib \<Rightarrow> int \<Rightarrow> event list \<Rightarrow> (gmap \<Rightarrow> bool) \<Rightarrow> (error \<Rightarrow> bool)
    \<Rightarrow> error option \<times> event list" where
  "HandleXmlReader_from cfg lib n xmlReader mapHandler errHandler =
     (case NewMapXmlReader cfg lib xmlReader [] of
        ((m, merr), rest) \<Rightarrow>
          (case merr of
             Some (Panic s) \<Rightarrow> (Some (Panic s), rest)
           | Some (Error s) \<Rightarrow>
               if errHandler (Error (''[xmlReader: '' @ Itoa (n + 1) @ ''] '' @ s))
               then HandleXmlReader_from cfg lib (n + 1) rest mapHandler errHandler
               else (Some (Error (''[xmlReader: '' @ Itoa (n + 1) @ ''] '' @ s)), rest)
           | Some EOF \<Rightarrow> (None, rest)
           | None \<Rightarrow>
               (case m of
                  None \<Rightarrow> HandleXmlReader_from cfg lib (n + 1) rest mapHandler errHandler
                | Some m' \<Rightarrow>
                    if length m' \<noteq> 0 \<and> \<not> mapHandler m' then (None, rest)
                    else HandleXmlReader_from cfg lib (n + 1) rest mapHandler errHandler)))"
  by pat_completeness auto
termination
  by (relation "measure (\<lambda>(cfg, lib, n, xmlReader, mapHandler, errHandler). length xmlReader)")
    (auto dest: NewMapXmlReader_consumes [OF sym])

definition HandleXmlReader :: "config \<Rightarrow> golib \<Rightarrow> event list \<Rightarrow> (gmap \<Rightarrow> bool) \<Rightarrow> (error \<Rightarrow> bool)
    \<Rightarrow> error option \<times> event list" where
  "HandleXmlReader cfg lib xmlReader mapHandler errHandler =
     HandleXmlReader_from cfg lib 0 xmlReader mapHandler errHandler"

text \<open>
  The child elements that the loop of a parent element reads from the stream, up to the end
  tag of the parent: for each child its key and the value that the parent stores for it
  (after the sequence numbering), in document order, and the events from the parent's end
  tag on. \<open>None\<close> when the stream ends or fails before that end tag. \<open>collect\<close> is what a
  map entry becomes when these values are stored into it one after the other.
\<close>

function childElements :: "config \<Rightarrow> golib \<Rightarrow> bool \<Rightarrow> int \<Rightarrow> event list
    \<Rightarrow> ((string \<times> gval) list \<times> event list) option" where
  "childElements cfg lib r seq [] = None"
| "childElements cfg lib r seq (Fail e # p) = None"
| "childElements cfg lib r seq (Tok (EndElement name) # p) = Some ([], Tok (EndElement name) # p)"
| "childElements cfg lib r seq (Tok (StartElement name attrs) # p) =
     (case xmlToMapParser cfg lib name attrs p r of
        ((Some (kv # others), None), p') \<Rightarrow>
          (case childElements cfg lib r (snd (tagSeqNum cfg (snd kv) seq)) p' of
             Some (kids, rest) \<Rightarrow> Some ((fst kv, fst (tagSeqNum cfg (snd kv) seq)) # kids, rest)
           | None \<Rightarrow> None)
      | _ \<Rightarrow> None)"
| "childElements cfg lib r seq (Tok (CharData d) # p) = childElements cfg lib r seq p"
| "childElements cfg lib r seq (Tok (Comment c) # p) = childElements cfg lib r seq p"
| "childElements cfg lib r seq (Tok (ProcInst t i) # p) = childElements cfg lib r seq p"
| "childElements cfg lib r seq (Tok (Directive d) # p) = childElements cfg lib r seq p"
  by pat_completeness auto
termination
proof (relation "measure (\<lambda>(cfg, lib, r, seq, p). length p)")
  fix cfg lib r and seq :: int and name attrs p x y xa ya x2 x21 x22
  assume "(x, y) = xmlToMapParser cfg lib name attrs p r"
  then have "length y \<le> length p"
    using decoder_consumes(1) [of cfg lib name attrs p r] by (metis snd_conv)
  then show "((cfg, lib, r, snd (tagSeqNum cfg (snd x21) seq), y), cfg, lib, r, seq,
        Tok (StartElement name attrs) # p) \<in> measure (\<lambda>(cfg, lib, r, seq, p). length p)"
    by simp
qed auto

fun collect :: "gval option \<Rightarrow> gval list \<Rightarrow> gval option" where
  "collect cur [] = cur"
| "collect None (v # vs) = collect (Some v) vs"
| "collect (Some u) (v # vs) =
     collect (Some (ListV ((case u of ListV a \<Rightarrow> a | _ \<Rightarrow> [u]) @ [v]))) vs"

lemma map_of_promote:
  "map_of (promote na key val) k = (if k = key then collect (map_of na k) [val] else map_of na k)"
  by (cases "map_of na key") (auto simp: promote_def update_conv')

lemma collect_list: "collect (Some (ListV us)) vs = Some (ListV (us @ vs))"
  by (induction vs arbitrary: us) auto

lemma collect_fresh:
  assumes "list_all (\<lambda>v. \<not> is_ListV v) vs" and "vs \<noteq> []"
  shows "collect None vs = Some (case vs of [v] \<Rightarrow> v | _ \<Rightarrow> ListV vs)"
proof (cases vs)
  case Nil
  with assms show ?thesis by simp
next
  case (Cons v ws)
  with assms have "\<not> is_ListV v" by simp
  then have "(case v of ListV a \<Rightarrow> a | _ \<Rightarrow> [v]) = [v]"
    by (cases v) (auto simp: is_ListV_def)
  then show ?thesis
    using Cons by (cases ws) (auto simp: collect_list)
qed

lemma collect_append: "collect cur (us @ vs) = collect (collect cur us) vs"
proof (induction us arbitrary: cur)
  case Nil
  then show ?case by simp
next
  case (Cons u us)
  then show ?case by (cases cur) auto
qed

definition members_of :: "config \<Rightarrow> gmap \<Rightarrow> gmap \<Rightarrow> (string \<times> gval) list \<Rightarrow> bool" where
  \<comment> \<open>every entry of \<open>na'\<close> but the text entry is the entry of \<open>na\<close> with the values of
      the children of that key stored into it, in their order\<close>
  "members_of cfg na na' kids \<longleftrightarrow>
     (\<forall>k. k \<noteq> textK cfg \<longrightarrow>
        map_of na' k = collect (map_of na k) (map snd (filter (\<lambda>c. fst c = k) kids)))"

section \<open>The encoder\<close>

record pretty =
  indent :: string
  cnt :: int
  padding :: string
  mapDepth :: int
  start :: int

definition Indent :: "pretty \<Rightarrow> pretty" where
  "Indent p = p\<lparr>padding := padding p @ indent p, cnt := cnt p + 1\<rparr>"

definition Outdent :: "pretty \<Rightarrow> pretty" where
  \<comment> \<open>the slice is in range wherever the encoder calls \<open>Outdent\<close> after \<open>Indent\<close>\<close>
  "Outdent p =
     (if cnt p > 0
      then p\<lparr>padding := take (length (padding p) - length (indent p)) (padding p),
             cnt := cnt p - 1\<rparr>
      else p)"

definition join :: "string \<Rightarrow> string list \<Rightarrow> string" where
  "join sep xs = (case xs of [] \<Rightarrow> [] | x # ys \<Rightarrow> x @ concat (map (\<lambda>y. sep @ y) ys))"

fun Sprint :: "golib \<Rightarrow> gval \<Rightarrow> string" where
  \<comment> \<open>\<open>fmt.Sprint(v)\<close>, which is \<open>fmt.Sprintf("%v", v)\<close>\<close>
  "Sprint lib Nil = ''<nil>''"
| "Sprint lib (Str s) = s"
| "Sprint lib (Bytes s) = ''['' @ join '' '' (map (\<lambda>c. Itoa (of_char c)) s) @ '']''"
| "Sprint lib (Bool b) = (if b then ''true'' else ''false'')"
| "Sprint lib (Float64 f) = FormatFloat lib 64 f"
| "Sprint lib (Float32 f) = FormatFloat lib 32 f"
| "Sprint lib (IntV i) = Itoa i"
| "Sprint lib (Int32 i) = Itoa i"
| "Sprint lib (Int64 i) = Itoa i"
| "Sprint lib (Uint64 i) = Itoa i"
| "Sprint lib (JsonNumber s) = s"
| "Sprint lib (MapV kvs) =
     ''map['' @ join '' '' (map (\<lambda>kt. fst kt @ '':'' @ snd kt)
                             (sort_key fst (map (\<lambda>kv. (fst kv, Sprint lib (snd kv))) kvs))) @ '']''"
| "Sprint lib (ListV vs) = ''['' @ join '' '' (map (Sprint lib) vs) @ '']''"
| "Sprint lib (StrList ss) = ''['' @ join '' '' ss @ '']''"
| "Sprint lib (ForeignMap t s kvs) = s"
| "Sprint lib (TypedSlice t s m mi) = s"
| "Sprint lib (Struct t s m) = s"
| "Sprint lib (Other t s) = s"

definition typeName :: "gval \<Rightarrow> string" where
  \<comment> \<open>what \<open>%T\<close> prints\<close>
  "typeName v =
     (case v of
        Nil \<Rightarrow> ''<nil>'' | Str _ \<Rightarrow> ''string'' | Bytes _ \<Rightarrow> ''[]uint8'' | Bool _ \<Rightarrow> ''bool''
      | Float64 _ \<Rightarrow> ''float64'' | Float32 _ \<Rightarrow> ''float32'' | IntV _ \<Rightarrow> ''int''
      | Int32 _ \<Rightarrow> ''int32'' | Int64 _ \<Rightarrow> ''int64'' | Uint64 _ \<Rightarrow> ''uint64''
      | JsonNumber _ \<Rightarrow> ''json.Number'' | MapV _ \<Rightarrow> ''map[string]interface {}''
      | ListV _ \<Rightarrow> ''[]interface {}'' | StrList _ \<Rightarrow> ''[]string''
      | ForeignMap t _ _ \<Rightarrow> t | TypedSlice t _ _ _ \<Rightarrow> t | Struct t _ _ \<Rightarrow> t | Other t _ \<Rightarrow> t)"

definition escaped :: "config \<Rightarrow> string \<Rightarrow> string" where
  "escaped cfg s = (if xmlEscapeChars cfg then escapeChars s else s)"

definition isAttrKey :: "config \<Rightarrow> string \<Rightarrow> bool" where
  \<comment> \<open>\<open>lenAttrPrefix > 0 && lenAttrPrefix < len(k) && k[:lenAttrPrefix] == attrPrefix\<close>\<close>
  "isAttrKey cfg k =
     (lenAttrPrefix cfg > 0 \<and> lenAttrPrefix cfg < length k
      \<and> take (lenAttrPrefix cfg) k = attrPrefix cfg)"

definition attrValue :: "config \<Rightarrow> golib \<Rightarrow> gval \<Rightarrow> string option" where
  \<comment> \<open>the text of an attribute's value; \<open>None\<close> for a value of a type that the switch over
      the attribute's value does not list\<close>
  "attrValue cfg lib v =
     (case v of
        Str s \<Rightarrow> Some (escaped cfg s)
      | Float64 _ \<Rightarrow> Some (Sprint lib v) | Bool _ \<Rightarrow> Some (Sprint lib v)
      | IntV _ \<Rightarrow> Some (Sprint lib v) | Int32 _ \<Rightarrow> Some (Sprint lib v)
      | Int64 _ \<Rightarrow> Some (Sprint lib v) | Float32 _ \<Rightarrow> Some (Sprint lib v)
      | JsonNumber _ \<Rightarrow> Some (Sprint lib v)
      | Bytes s \<Rightarrow> Some (escaped cfg s)
      | _ \<Rightarrow> None)"

fun scanAttrs :: "config \<Rightarrow> golib \<Rightarrow> gmap \<Rightarrow> error + (string \<times> string) list" where
  \<comment> \<open>the loop that fills \<open>attrlist\<close>: it returns at the first attribute whose value has no
      text\<close>
  "scanAttrs cfg lib [] = Inr []"
| "scanAttrs cfg lib ((k, v) # vv) =
     (if isAttrKey cfg k then
        (case attrValue cfg lib v of
           None \<Rightarrow>
             Inl (Error (''invalid attribute value for: '' @ k @ '':<'' @ typeName v @ ''>''))
         | Some s \<Rightarrow>
             (case scanAttrs cfg lib vv of
                Inl err \<Rightarrow> Inl err
              | Inr attrlist \<Rightarrow> Inr ((drop (lenAttrPrefix cfg) k, s) # attrlist)))
      else scanAttrs cfg lib vv)"

definition sortedAttrs :: "config \<Rightarrow> golib \<Rightarrow> gmap \<Rightarrow> error + (string \<times> string) list" where
  \<comment> \<open>\<open>sort.Sort(attrList(attrlist))\<close>: by the name of the attribute\<close>
  "sortedAttrs cfg lib vv =
     (case scanAttrs cfg lib vv of Inl err \<Rightarrow> Inl err | Inr attrlist \<Rightarrow> Inr (sort_key fst attrlist))"

definition elemlist :: "config \<Rightarrow> gmap \<Rightarrow> gmap" where
  \<comment> \<open>the entries that are neither the text entry nor an attribute, sorted on the key\<close>
  "elemlist cfg vv =
     sort_key fst (filter (\<lambda>kv. fst kv \<noteq> textK cfg \<and> \<not> isAttrKey cfg (fst kv)) vv)"

definition textOf :: "config \<Rightarrow> golib \<Rightarrow> gval \<Rightarrow> string" where
  \<comment> \<open>the text entry's value as it is written: a string or a byte slice escaped as
      configured, any other value as \<open>%v\<close> prints it\<close>
  "textOf cfg lib v =
     (case v of Str s \<Rightarrow> escaped cfg s | Bytes s \<Rightarrow> escaped cfg s | _ \<Rightarrow> Sprint lib v)"

definition coerce :: "golib \<Rightarrow> gval \<Rightarrow> error + gval" where
  \<comment> \<open>the first two blocks of \<open>marshalMapToXmlIndent\<close>: a map of another type becomes a
      \<open>map[string]interface{}\<close>; nil becomes the empty string; a struct becomes what
      \<open>xml.Marshal\<close> makes of it, whose error is returned; a value of any type that is not
      listed becomes what \<open>fmt.Sprint\<close> prints\<close>
  "coerce lib value =
     (case value of
        ForeignMap t s kvs \<Rightarrow> Inr (MapV (fold (\<lambda>kv val. AList.update (fst kv) (snd kv) val) kvs []))
      | Nil \<Rightarrow> Inr (Str [])
      | Struct t s m \<Rightarrow> (case m of Inl e \<Rightarrow> Inl (Error e) | Inr x \<Rightarrow> Inr (Str x))
      | Uint64 i \<Rightarrow> Inr (Str (Sprint lib value))
      | Other t s \<Rightarrow> Inr (Str (Sprint lib value))
      | _ \<Rightarrow> Inr value)"

definition is_StrList :: "gval \<Rightarrow> bool" where
  "is_StrList v = (case v of StrList _ \<Rightarrow> True | _ \<Rightarrow> False)"

definition is_MapV :: "gval \<Rightarrow> bool" where
  "is_MapV v = (case v of MapV _ \<Rightarrow> True | _ \<Rightarrow> False)"

definition openTag :: "bool \<Rightarrow> string \<Rightarrow> string \<Rightarrow> gval \<Rightarrow> pretty \<Rightarrow> string" where
  \<comment> \<open>the padding, unless the value is a list, and \<open><key\<close>, unless it is a
      \<open>[]interface{}\<close>\<close>
  "openTag doIndent b key value p =
     b @ (if doIndent \<and> \<not> is_ListV value \<and> \<not> is_StrList value then padding p else [])
       @ (if is_ListV value then [] else ''<'' @ key)"

definition finish :: "config \<Rightarrow> bool \<Rightarrow> string \<Rightarrow> string \<Rightarrow> pretty \<Rightarrow> bool \<Rightarrow> bool \<Rightarrow> nat
    \<Rightarrow> string \<times> error option" where
  \<comment> \<open>from \<open>if endTag\<close> to the end of the function. The last \<open>p.Outdent()\<close> changes a copy
      that nobody reads, but its slice expression panics when the padding is shorter than
      the indent.\<close>
  "finish cfg doIndent b key p endTag isSimple elen =
     (b @ (if endTag then
             (if doIndent \<and> \<not> isSimple then padding p else [])
             @ (if elen > 0 \<or> useGoXmlEmptyElemSyntax cfg
                then (if elen = 0 then ''>'' else []) @ ''</'' @ key @ ''>''
                else ''/>'')
           else [])
        @ (if doIndent \<and> cnt p > start p then [CHR 0x0A] else []),
      if doIndent \<and> cnt p > 0 \<and> length (padding p) < length (indent p)
      then Some (Panic ''slice bounds out of range'') else None)"

definition writeAttrs :: "(string \<times> string) list \<Rightarrow> string" where
  "writeAttrs attrlist =
     concat (map (\<lambda>a. '' '' @ fst a @ ''='' @ [CHR 0x22] @ snd a @ [CHR 0x22]) attrlist)"

definition mapHead :: "config \<Rightarrow> golib \<Rightarrow> bool \<Rightarrow> string \<Rightarrow> string \<Rightarrow> gmap \<Rightarrow> pretty
    \<Rightarrow> (string \<times> error option) + string" where
  \<comment> \<open>the case of a map up to its elements: \<open>Inl\<close> when the function is done (an invalid
      attribute, attributes only, or attributes and the text entry only), \<open>Inr\<close> the buffer
      when the elements are to be written\<close>
  "mapHead cfg lib doIndent b key vv p =
     (case sortedAttrs cfg lib vv of
        Inl err \<Rightarrow> Inl (b, Some err)
      | Inr attrlist \<Rightarrow>
          if length attrlist = length vv then
            Inl (finish cfg doIndent
                   (b @ writeAttrs attrlist
                      @ (if useGoXmlEmptyElemSyntax cfg then ''</'' @ key @ ''>'' else ''/>''))
                   key p False False 0)
          else
            (case map_of vv (textK cfg) of
               Some v \<Rightarrow>
                 if length attrlist + 1 = length vv then
                   Inl (finish cfg doIndent (b @ writeAttrs attrlist @ ''>'' @ textOf cfg lib v)
                          key p True True 1)
                 else
                   Inr (b @ writeAttrs attrlist @ ''>'' @ textOf cfg lib v
                          @ (if doIndent then [CHR 0x0A] else []))
             | None \<Rightarrow>
                 Inr (b @ writeAttrs attrlist @ ''>'' @ (if doIndent then [CHR 0x0A] else []))))"

definition scalarBody :: "config \<Rightarrow> golib \<Rightarrow> bool \<Rightarrow> gval \<Rightarrow> string \<times> nat" where
  \<comment> \<open>the default case of the last switch: what is written after \<open><key\<close>, and \<open>elen\<close>.
      After \<open>coerce\<close> the value here is a string, a byte slice, a typed slice (the only
      values that reach the marshaller of the inner default) or of one of the types that
      \<open>%v\<close> prints.\<close>
  "scalarBody cfg lib doIndent value =
     (case value of
        Str s \<Rightarrow> (if length (escaped cfg s) > 0 then ''>'' @ escaped cfg s else [],
                   length (escaped cfg s))
      | Bytes s \<Rightarrow> (if length (escaped cfg s) > 0 then ''>'' @ escaped cfg s else [],
                     length (escaped cfg s))
      | TypedSlice t s m mi \<Rightarrow>
          (case (if doIndent then mi else m) of
             Inl e \<Rightarrow> (''>'' @ ''>UNKNOWN'', 0)
           | Inr v \<Rightarrow> (''>'' @ v, length v))
      | _ \<Rightarrow> (''>'' @ Sprint lib value, length (Sprint lib value)))"

fun weight :: "gval \<Rightarrow> nat" where
  "weight (MapV kvs) = Suc (sum_list (map (\<lambda>kv. Suc (weight (snd kv))) kvs))"
| "weight (ForeignMap t s kvs) = Suc (sum_list (map (\<lambda>kv. Suc (weight (snd kv))) kvs))"
| "weight (ListV vs) = Suc (sum_list (map (\<lambda>v. Suc (weight v)) vs))"
| "weight (StrList ss) = Suc (length ss)"
| "weight v = 0"

definition weights :: "gmap \<Rightarrow> nat" where
  "weights kvs = sum_list (map (\<lambda>kv. Suc (weight (snd kv))) kvs)"

text \<open>
  \<open>marshalMapToXmlIndent\<close> appends to the buffer it is given and returns an error; the
  model returns the buffer with the error. It works on a copy of the \<open>pretty\<close> value, so
  that the caller's is not changed. \<open>marshalElems\<close> is its loop over the sorted elements of
  a map, \<open>marshalList\<close> its loop over the members of a list.
\<close>

function marshalMapToXmlIndent :: "config \<Rightarrow> golib \<Rightarrow> bool \<Rightarrow> string \<Rightarrow> string \<Rightarrow> gval \<Rightarrow> pretty
      \<Rightarrow> string \<times> error option"
  and marshalElems :: "config \<Rightarrow> golib \<Rightarrow> bool \<Rightarrow> string \<Rightarrow> pretty \<Rightarrow> gmap
      \<Rightarrow> string \<times> error option \<times> pretty"
  and marshalList :: "config \<Rightarrow> golib \<Rightarrow> bool \<Rightarrow> string \<Rightarrow> string \<Rightarrow> pretty \<Rightarrow> gval list
      \<Rightarrow> string \<times> error option"
where
  "marshalMapToXmlIndent cfg lib doIndent b key value pp =
     (case coerce lib value of
        Inl err \<Rightarrow> (b, Some err)
      | Inr val \<Rightarrow>
          (case val of
             MapV vv \<Rightarrow>
               (case mapHead cfg lib doIndent (openTag doIndent b key val pp) key vv pp of
                  Inl done \<Rightarrow> done
                | Inr b' \<Rightarrow>
                    (case marshalElems cfg lib doIndent b' (pp\<lparr>mapDepth := mapDepth pp + 1\<rparr>)
                            (elemlist cfg vv) of
                       (b'', Some err, p) \<Rightarrow> (b'', Some err)
                     | (b'', None, p) \<Rightarrow>
                         finish cfg doIndent b'' key (p\<lparr>mapDepth := mapDepth p - 1\<rparr>)
                           True False 1))
           | ListV vs \<Rightarrow>
               if length vs = 0 then
                 finish cfg doIndent
                   (openTag doIndent b key val pp
                      @ (if doIndent then padding pp @ indent pp else []) @ ''<'' @ key)
                   key pp True False 0
               else marshalList cfg lib doIndent (openTag doIndent b key val pp) key pp vs
           | StrList ss \<Rightarrow>
               if length ss = 0 then
                 finish cfg doIndent
                   (openTag doIndent b key val pp
                      @ (if doIndent then padding pp @ indent pp else []) @ ''<'' @ key)
                   key pp True False 0
               else marshalList cfg lib doIndent (openTag doIndent b key val pp) key pp (map Str ss)
           | _ \<Rightarrow>
               finish cfg doIndent
                 (openTag doIndent b key val pp @ fst (scalarBody cfg lib doIndent val))
                 key pp True True (snd (scalarBody cfg lib doIndent val))))"
| "marshalElems cfg lib doIndent b p [] = (b, None, p)"
| "marshalElems cfg lib doIndent b p (kv # elems) =
     (case marshalMapToXmlIndent cfg lib doIndent b (fst kv) (snd kv)
             (if \<not> is_ListV (snd kv) \<and> doIndent then Indent p else p) of
        (b', Some err) \<Rightarrow> (b', Some err, if \<not> is_ListV (snd kv) \<and> doIndent then Indent p else p)
      | (b', None) \<Rightarrow>
          marshalElems cfg lib doIndent b'
            (if \<not> is_ListV (snd kv) \<and> doIndent then Outdent (Indent p) else p) elems)"
| "marshalList cfg lib doIndent b key p [] = (b, None)"
| "marshalList cfg lib doIndent b key p (v # vs) =
     (case marshalMapToXmlIndent cfg lib doIndent b key v (if doIndent then Indent p else p) of
        (b', Some err) \<Rightarrow> (b', Some err)
      | (b', None) \<Rightarrow>
          marshalList cfg lib doIndent b' key (if doIndent then Outdent (Indent p) else p) vs)"
  by pat_completeness auto


lemma weights_insort: "weights (insort_key f x xs) = Suc (weight (snd x)) + weights xs"
  by (induction xs) (auto simp: weights_def)

lemma weights_sort: "weights (sort_key f xs) = weights xs"
  by (induction xs) (auto simp: weights_insort, simp add: weights_def)

lemma weights_filter: "weights (filter P xs) \<le> weights xs"
  by (induction xs) (auto simp: weights_def)

lemma weights_elemlist: "weights (elemlist cfg vv) \<le> weights vv"
  by (simp add: elemlist_def weights_sort weights_filter)

lemma weights_update: "weights (AList.update k v al) \<le> weights al + Suc (weight v)"
  by (induction al) (auto simp: weights_def)

lemma weights_fold_update:
  "weights (fold (\<lambda>kv val. AList.update (fst kv) (snd kv) val) kvs acc) \<le> weights kvs + weights acc"
proof (induction kvs arbitrary: acc)
  case Nil
  then show ?case by (simp add: weights_def)
next
  case (Cons kv kvs)
  have "weights (fold (\<lambda>kv val. AList.update (fst kv) (snd kv) val) kvs
            (AList.update (fst kv) (snd kv) acc))
        \<le> weights kvs + weights (AList.update (fst kv) (snd kv) acc)"
    by (rule Cons.IH)
  also have "\<dots> \<le> weights kvs + (weights acc + Suc (weight (snd kv)))"
    using weights_update [of "fst kv" "snd kv" acc] by simp
  finally show ?case by (simp add: weights_def)
qed

lemma sum_list_Suc_0: "sum_list (map (\<lambda>x. Suc 0) xs) = length xs"
  by (induction xs) auto

lemma coerce_MapV: "coerce lib v = Inr (MapV vv) \<Longrightarrow> weights vv < weight v"
  using weights_fold_update [of _ "[]"]
  by (cases v) (auto simp: coerce_def weights_def le_imp_less_Suc split: sum.splits)

lemma coerce_ListV: "coerce lib v = Inr (ListV vs) \<Longrightarrow> v = ListV vs"
  by (cases v) (auto simp: coerce_def split: sum.splits)

lemma coerce_StrList: "coerce lib v = Inr (StrList ss) \<Longrightarrow> v = StrList ss"
  by (cases v) (auto simp: coerce_def split: sum.splits)

termination marshalMapToXmlIndent
proof (relation "measure (\<lambda>x. case x of
            Inl (cfg, lib, doIndent, b, key, v, pp) \<Rightarrow> 2 * weight v + 2
          | Inr (Inl (cfg, lib, doIndent, b, p, elems)) \<Rightarrow> 2 * weights elems + 1
          | Inr (Inr (cfg, lib, doIndent, b, key, p, vs)) \<Rightarrow>
              2 * sum_list (map (\<lambda>v. Suc (weight v)) vs) + 1)", goal_cases)
  case 1
  then show ?case by simp
next
  case (2 cfg lib doIndent b key v pp ba vv bb)
  then show ?case
    using coerce_MapV [of lib v vv] weights_elemlist [of cfg vv] by simp
next
  case (3 cfg lib doIndent b key v pp ba vs)
  then show ?case
    using coerce_ListV [of lib v vs] by simp
next
  case (4 cfg lib doIndent b key v pp ba ss)
  then show ?case
    using coerce_StrList [of lib v ss] by (simp add: comp_def sum_list_Suc_0)
next
  case (5 cfg lib doIndent b p kv elems)
  then show ?case by (simp add: weights_def)
next
  case (6 cfg lib doIndent b p kv elems x y)
  then show ?case by (simp add: weights_def)
next
  case (7 cfg lib doIndent b key p v vs)
  then show ?case by simp
next
  case (8 cfg lib doIndent b key p v vs x y)
  then show ?case by simp
qed

declare marshalMapToXmlIndent.simps [simp del]

fun readBack :: "event list \<Rightarrow> string option" where
  \<comment> \<open>the loop \<open>for { _, err = d.Token(); ... }\<close>: the message of the first error that is
      not \<open>io.EOF\<close>, or \<open>None\<close> when the end of the input is reached\<close>
  "readBack [] = None"
| "readBack (Tok t # evs) = readBack evs"
| "readBack (Fail e # evs) = Some e"

definition checkValid :: "config \<Rightarrow> golib \<Rightarrow> string \<times> error option \<Rightarrow> string option \<times> error option" where
  \<comment> \<open>from the label \<open>done\<close> on: with \<open>xmlCheckIsValid\<close> the bytes are read back token by
      token, and \<open>err\<close> is assigned by every call of \<open>Token\<close>; the bytes are returned with
      \<open>err\<close>\<close>
  "checkValid cfg lib res =
     (if xmlCheckIsValid cfg then
        (case readBack (Tokens lib (fst res)) of
           Some e \<Rightarrow> (None, Some (Error e))
         | None \<Rightarrow> (Some (fst res), None))
      else (Some (fst res), snd res))"

definition Xml :: "config \<Rightarrow> golib \<Rightarrow> gmap \<Rightarrow> string list \<Rightarrow> string option \<times> error option" where
  "Xml cfg lib mv rootTag =
     (let p = \<lparr>indent = [], cnt = 0, padding = [], mapDepth = 0, start = 0\<rparr>
      in checkValid cfg lib
           (if length mv = 1 \<and> length rootTag = 0 then
              (case mv of
                 kv # _ \<Rightarrow>
                   (case snd kv of
                      ListV vs \<Rightarrow>
                        if list_ex (\<lambda>v. \<not> is_MapV v) vs
                        then marshalMapToXmlIndent cfg lib False [] DefaultRootTag (MapV mv) p
                        else marshalMapToXmlIndent cfg lib False [] (fst kv) (snd kv) p
                    | _ \<Rightarrow> marshalMapToXmlIndent cfg lib False [] (fst kv) (snd kv) p)
               | [] \<Rightarrow> ([], None))
            else if length rootTag = 1 then
              marshalMapToXmlIndent cfg lib False [] (hd rootTag) (MapV mv) p
            else marshalMapToXmlIndent cfg lib False [] DefaultRootTag (MapV mv) p))"

definition XmlIndent :: "config \<Rightarrow> golib \<Rightarrow> gmap \<Rightarrow> string \<Rightarrow> string \<Rightarrow> string list
    \<Rightarrow> string option \<times> error option" where
  "XmlIndent cfg lib mv prefix ind rootTag =
     (let p = \<lparr>indent = ind, cnt = 0, padding = prefix, mapDepth = 0, start = 0\<rparr>
      in checkValid cfg lib
           (if length mv = 1 \<and> length rootTag = 0 then
              (case mv of
                 kv # _ \<Rightarrow>
                   if is_ListV (snd kv)
                   then marshalMapToXmlIndent cfg lib True [] DefaultRootTag (MapV mv) p
                   else marshalMapToXmlIndent cfg lib True [] (fst kv) (snd kv) p
               | [] \<Rightarrow> ([], None))
            else if length rootTag = 1 then
              marshalMapToXmlIndent cfg lib True [] (hd rootTag) (MapV mv) p
            else marshalMapToXmlIndent cfg lib True [] DefaultRootTag (MapV mv) p))"

definition example_lib :: golib where
  \<comment> \<open>an instance of the library for the worked examples, none of which prints a
      floating-point number or lowers a string with a byte outside ASCII; its tokenizer
      finds the end of the input at once\<close>
  "example_lib =
     \<lparr>FormatFloat = (\<lambda>n f. []), Tokens = (\<lambda>b. []), unicodeToLower = (\<lambda>s. s)\<rparr>"

definition blank :: "config \<Rightarrow> event \<Rightarrow> bool" where
  \<comment> \<open>an event inside an element that is neither a child nor text: character data that
      the configured trim empties, a comment, a processing instruction, a directive\<close>
  "blank cfg ev =
     (case ev of
        Tok (CharData d) \<Rightarrow> Trim d (trimRunes cfg) = []
      | Tok (Comment c) \<Rightarrow> True
      | Tok (ProcInst t i) \<Rightarrow> True
      | Tok (Directive d) \<Rightarrow> True
      | _ \<Rightarrow> False)"

definition invalidAttr :: "config \<Rightarrow> golib \<Rightarrow> string \<times> gval \<Rightarrow> bool" where
  \<comment> \<open>an entry that the scan of the attributes takes for an attribute and whose value has
      no text\<close>
  "invalidAttr cfg lib kv = (isAttrKey cfg (fst kv) \<and> attrValue cfg lib (snd kv) = None)"

text \<open>
  The maps that the encoder comes to write as elements when it is given a value: the value
  itself when it is a map (after \<open>coerce\<close>), and what it comes to write for the elements
  of that map and for the members of a list.
\<close>

inductive writes :: "config \<Rightarrow> golib \<Rightarrow> gval \<Rightarrow> gmap \<Rightarrow> bool"
  for cfg :: config and lib :: golib
where
  writes_map: "coerce lib v = Inr (MapV vv) \<Longrightarrow> writes cfg lib v vv"
| writes_elem:
    "coerce lib v = Inr (MapV vv) \<Longrightarrow> kv \<in> set (elemlist cfg vv) \<Longrightarrow> writes cfg lib (snd kv) vv'
      \<Longrightarrow> writes cfg lib v vv'"
| writes_member: "x \<in> set vs \<Longrightarrow> writes cfg lib x vv' \<Longrightarrow> writes cfg lib (ListV vs) vv'"



section \<open>The caster tries its interpretations in a fixed order\<close>

lemma first_success_interpretations:
  "first_success (interpretations cfg lib) s =
     (case nanInfScreen cfg lib s of Some v \<Rightarrow> Some v | None \<Rightarrow>
      (case asSigned cfg s of Some v \<Rightarrow> Some v | None \<Rightarrow>
       (case asUnsigned cfg s of Some v \<Rightarrow> Some v | None \<Rightarrow>
        (case asFloat cfg s of Some v \<Rightarrow> Some v | None \<Rightarrow> asBool cfg s))))"
  by (simp add: interpretations_def split: option.splits)

lemma bool_screen:
  "(length s > 0 \<and> length s < 6 \<and> take 1 s \<in> set [''t'', ''T'', ''f'', ''F'']) =
     (1 \<le> length s \<and> length s \<le> 5 \<and> (case s of c # _ \<Rightarrow> c \<in> set ''tTfF'' | [] \<Rightarrow> False))"
  by (cases s) auto

lemma cast_refines_order:
  assumes "checkTagToSkip cfg = None"
  shows "cast cfg lib s True t = cast_in_order cfg lib s"
proof -
  define scr where "scr \<longleftrightarrow> castToBool cfg \<and> 1 \<le> length s \<and> length s \<le> 5
         \<and> (case s of c # _ \<Rightarrow> c \<in> set ''tTfF'' | [] \<Rightarrow> False)"
  define scn where "scn \<longleftrightarrow> \<not> castNanInf cfg \<and> ToLower lib s \<in> set [''nan'', ''inf'', ''-inf'']"
  have l: "cast cfg lib s True t =
     (if scn then Str s
      else (case (if castToInt cfg then ParseInt s else None) of
          Some f \<Rightarrow> Int64 f
        | None \<Rightarrow>
           (case (if castToInt cfg then ParseUint s else None) of
              Some f \<Rightarrow> Uint64 f
            | None \<Rightarrow>
               (case (if castToFloat cfg then ParseFloat s else None) of
                  Some f \<Rightarrow> Float64 f
                | None \<Rightarrow>
                   (if scr then (case ParseBool s of Some b \<Rightarrow> Bool b | None \<Rightarrow> Str s)
                    else Str s)))))"
    unfolding cast_def bool_screen scr_def [symmetric] scn_def [symmetric] assms
    by simp
  have r: "cast_in_order cfg lib s =
     (case (if scn then Some (Str s) else None) of Some v \<Rightarrow> v | None \<Rightarrow>
      (case asSigned cfg s of Some v \<Rightarrow> v | None \<Rightarrow>
       (case asUnsigned cfg s of Some v \<Rightarrow> v | None \<Rightarrow>
        (case asFloat cfg s of Some v \<Rightarrow> v | None \<Rightarrow>
         (case (if scr then map_option Bool (ParseBool s) else None) of
            Some v \<Rightarrow> v | None \<Rightarrow> Str s)))))"
    unfolding cast_in_order_def first_success_interpretations nanInfScreen_def asBool_def
      scr_def [symmetric] scn_def [symmetric]
    by (simp split: option.splits)
  show ?thesis
    unfolding l r asSigned_def asUnsigned_def asFloat_def
    by (simp split: option.splits)
qed

lemma cast_1_not_bool: "\<not> is_bool (cast cfg lib ''1'' r t)"
  by (auto simp: cast_def is_bool_def split: option.splits)

lemma cast_defaults_1: "cast defaults lib ''1'' True t = Float64 (Finite 1)"
  by (simp add: cast_def defaults_def) code_simp

lemma cast_defaults_true: "cast defaults lib ''true'' True t = Bool True"
  by (simp add: cast_def defaults_def) code_simp

lemma cast_defaults_00123: "cast defaults lib ''00123'' True t = Float64 (Finite 123)"
  by (simp add: cast_def defaults_def) code_simp

text \<open>
  C3, as the specification states it, fails at its own example: with casting enabled and
  the default switches, \<open>"00123"\<close> is accepted by the float parse and is not returned as
  the string it was.
\<close>

theorem C3_cast_00123_counterexample:
  "cast defaults example_lib ''00123'' True [] \<noteq> Str ''00123''"
  by (simp add: cast_defaults_00123)

text \<open>
  C3, amended. With casting enabled and no skip predicate registered, \<open>cast\<close> is the
  ordered list of interpretations (the NaN/Inf screen, signed then unsigned 64-bit integer
  when integer casting is on, 64-bit float, boolean for a string of 1 to 5 bytes that
  starts with t, T, f or F), of which the first that succeeds wins, and the string itself
  when none does. \<open>"1"\<close> is never a boolean and, by default, is a number; \<open>"true"\<close> is the
  boolean; a string that no enabled interpretation accepts is returned unchanged; and
  \<open>"00123"\<close> is not such a string: the float parse accepts it as 123.
\<close>

theorem C3_cast_in_order:
  assumes "checkTagToSkip cfg = None"
  shows "cast cfg lib s True t = cast_in_order cfg lib s
       \<and> (first_success (interpretations cfg lib) s = None \<longrightarrow> cast cfg lib s True t = Str s)
       \<and> \<not> is_bool (cast cfg lib ''1'' True t)
       \<and> is_number (cast defaults lib ''1'' True t)
       \<and> cast defaults lib ''true'' True t = Bool True
       \<and> cast defaults lib ''00123'' True t = Float64 (Finite 123)"
  using cast_refines_order [OF assms, of lib s t]
  by (simp add: cast_in_order_def cast_1_not_bool cast_defaults_1 cast_defaults_true
        cast_defaults_00123 is_number_def)

theorem C3_cast_in_order_witness:
  "checkTagToSkip defaults = None
   \<and> first_success (interpretations defaults example_lib) ''12a'' = None
   \<and> cast defaults example_lib ''12a'' True ''zip'' = Str ''12a''"
proof -
  have h: "checkTagToSkip defaults = None"
    by (simp add: defaults_def)
  have n: "first_success (interpretations defaults example_lib) ''12a'' = None"
    by code_simp
  show ?thesis
    using C3_cast_in_order [OF h, where lib = example_lib and s = "''12a''" and t = "''zip''"] h n
    by blast
qed

section \<open>What the decoder returns\<close>

lemma cast_not_list: "\<not> is_ListV (cast cfg lib s r t)"
  by (simp add: cast_def is_ListV_def split: option.splits)

lemma returns_one_simps:
  "returns_one k (Some [(k', v)], None) = (k' = k \<and> \<not> is_ListV v)"
  "returns_one k (None, Some e)"
  by (simp_all add: returns_one_def)

lemma decoder_returns_one:
  "returns_one (if normKey cfg lib skey \<noteq> [] then normKey cfg lib skey else rootKey cfg lib p)
     (fst (xmlToMapParser cfg lib skey a p r))"
  "n = [] \<or> (\<exists>v. n = [(skey, v)] \<and> \<not> is_ListV v) \<Longrightarrow>
   returns_one (if skey \<noteq> [] then skey else rootKey cfg lib p)
     (fst (tokenLoop cfg lib r skey n na seq p))"
proof (induct cfg lib skey a p r and cfg lib r skey n na seq p rule: xmlToMapParser_tokenLoop.induct)
  case (1 cfg lib skey a p r)
  then show ?case by (auto simp add: xmlToMapParser.simps returns_one_simps is_ListV_def)
next
  case (2 cfg lib r skey n na seq)
  then show ?case by (simp add: returns_one_simps)
next
  case (3 cfg lib r skey n na seq e p)
  then show ?case by (simp add: returns_one_simps)
next
  case (4 cfg lib r skey n na seq name attrs p)
  show ?case
  proof (cases "skey = []")
    case True
    with 4(1) show ?thesis by simp
  next
    case False
    obtain nn err p' where x: "xmlToMapParser cfg lib name attrs p r = ((nn, err), p')"
      by (metis prod.exhaust)
    show ?thesis
    proof (cases err)
      case (Some e)
      with False x show ?thesis by (simp add: returns_one_simps)
    next
      case None
      obtain key val where kv: "(case nn of Some (kv # _) \<Rightarrow> kv | _ \<Rightarrow> ([], Nil)) = (key, val)"
        by (metis prod.exhaust)
      have "returns_one (if skey \<noteq> [] then skey else rootKey cfg lib p')
              (fst (tokenLoop cfg lib r skey n (promote na key (fst (tagSeqNum cfg val seq)))
                (snd (tagSeqNum cfg val seq)) p'))"
        using 4(3) [OF False x [symmetric] refl None kv [symmetric] 4(4)] .
      with False x None kv show ?thesis by simp
    qed
  qed
next
  case (5 cfg lib r skey n na seq name p)
  then show ?case by (auto simp add: returns_one_simps nil_map_panic_def is_ListV_def)
next
  case (6 cfg lib r skey n na seq d p)
  then show ?case by (auto simp add: returns_one_simps nil_map_panic_def cast_not_list)
next
  case (7 cfg lib r skey n na seq c p)
  then show ?case by auto
next
  case (8 cfg lib r skey n na seq t i p)
  then show ?case by auto
next
  case (9 cfg lib r skey n na seq d p)
  then show ?case by auto
qed

lemma decoder_frame:
  "(snd (fst (xmlToMapParser cfg lib skey a p r)) \<noteq> Some EOF \<longrightarrow>
      (\<forall>q. xmlToMapParser cfg lib skey a (p @ q) r =
        (fst (xmlToMapParser cfg lib skey a p r), snd (xmlToMapParser cfg lib skey a p r) @ q))) \<and>
   (snd (fst (xmlToMapParser cfg lib skey a p r)) = Some EOF \<longrightarrow>
      xmlToMapParser cfg lib skey a (p @ Fail e # post) r =
        ((None, Some (Error (''xml.Decoder.Token() - '' @ e))), post))"
  "(snd (fst (tokenLoop cfg lib r skey n na seq p)) \<noteq> Some EOF \<longrightarrow>
      (\<forall>q. tokenLoop cfg lib r skey n na seq (p @ q) =
        (fst (tokenLoop cfg lib r skey n na seq p), snd (tokenLoop cfg lib r skey n na seq p) @ q))) \<and>
   (snd (fst (tokenLoop cfg lib r skey n na seq p)) = Some EOF \<longrightarrow>
      tokenLoop cfg lib r skey n na seq (p @ Fail e # post) =
        ((None, Some (Error (''xml.Decoder.Token() - '' @ e))), post))"
proof (induct cfg lib skey a p r and cfg lib r skey n na seq p rule: xmlToMapParser_tokenLoop.induct)
  case (1 cfg lib skey a p r)
  then show ?case by (auto simp: xmlToMapParser.simps)
next
  case (2 cfg lib r skey n na seq)
  then show ?case by simp
next
  case (3 cfg lib r skey n na seq e p)
  then show ?case by simp
next
  case (4 cfg lib r skey n na seq name attrs p)
  show ?case
  proof (cases "skey = []")
    case True
    with 4(1) show ?thesis by simp
  next
    case False
    obtain nn err p' where x: "xmlToMapParser cfg lib name attrs p r = ((nn, err), p')"
      by (metis prod.exhaust)
    show ?thesis
    proof (cases err)
      case (Some e')
      with False x 4(2) show ?thesis by (cases "e' = EOF") simp_all
    next
      case None
      obtain key val where kv: "(case nn of Some (kv # _) \<Rightarrow> kv | _ \<Rightarrow> ([], Nil)) = (key, val)"
        by (metis prod.exhaust)
      note ih = 4(3) [OF False x [symmetric] refl None kv [symmetric]]
      from 4(2) [OF False] x None
      have c: "xmlToMapParser cfg lib name attrs (p @ q) r = ((nn, None), p' @ q)" for q
        by simp
      with False x None kv ih show ?thesis by simp
    qed
  qed
next
  case (5 cfg lib r skey n na seq name p)
  then show ?case by (auto simp: nil_map_panic_def)
next
  case (6 cfg lib r skey n na seq d p)
  then show ?case by (auto simp: nil_map_panic_def)
next
  case (7 cfg lib r skey n na seq c p)
  then show ?case by auto
next
  case (8 cfg lib r skey n na seq t i p)
  then show ?case by auto
next
  case (9 cfg lib r skey n na seq d p)
  then show ?case by auto
qed

text \<open>
  C10. A decode that returns no error returns a map with exactly one entry. For the call on
  a document (with the empty key) the entry's key is the normalised name of the root
  element; for the recursive call on a child element it is the child's normalised name.
\<close>

theorem C10_decode_returns_singleton:
  "(snd (fst (xmlToMapParser cfg lib [] [] p r)) = None \<longrightarrow>
      (\<exists>v. fst (fst (xmlToMapParser cfg lib [] [] p r)) = Some [(rootKey cfg lib p, v)])) \<and>
   (normKey cfg lib name \<noteq> [] \<and> snd (fst (xmlToMapParser cfg lib name attrs q r)) = None \<longrightarrow>
      (\<exists>v. fst (fst (xmlToMapParser cfg lib name attrs q r)) = Some [(normKey cfg lib name, v)]))"
proof -
  have n: "normKey cfg lib [] = []"
    by (simp add: normKey_def ToLower_def snake_def)
  have one: "returns_one k res \<Longrightarrow> snd res = None \<Longrightarrow> \<exists>v. fst res = Some [(k, v)]" for k res
    by (auto simp: returns_one_def)
  show ?thesis
    using decoder_returns_one(1) [of cfg lib "[]" p "[]" r] decoder_returns_one(1) [of cfg lib name q attrs r]
    by (auto simp: n dest: one)
qed

theorem C10_decode_returns_singleton_witness:
  "snd (fst (xmlToMapParser defaults example_lib [] []
      [Tok (StartElement ''p'' []), Tok (StartElement ''c'' []), Tok (CharData ''1''),
       Tok (EndElement ''c''), Tok (EndElement ''p'')] False)) = None
   \<and> normKey defaults example_lib ''c'' \<noteq> []
   \<and> snd (fst (xmlToMapParser defaults example_lib ''c'' []
        [Tok (CharData ''1''), Tok (EndElement ''c'')] False)) = None
   \<and> (\<exists>v. fst (fst (xmlToMapParser defaults example_lib [] []
      [Tok (StartElement ''p'' []), Tok (StartElement ''c'' []), Tok (CharData ''1''),
       Tok (EndElement ''c''), Tok (EndElement ''p'')] False)) = Some [(''p'', v)])
   \<and> (\<exists>v. fst (fst (xmlToMapParser defaults example_lib ''c'' []
        [Tok (CharData ''1''), Tok (EndElement ''c'')] False))
         = Some [(''c'', v)])
   \<and> snd (fst (xmlToMapParser (defaults\<lparr>lowerCase := True, snakeCaseKeys := True\<rparr>) example_lib
        [] [] [Tok (StartElement ''My-Tag'' []), Tok (CharData ''1''), Tok (EndElement ''My-Tag'')]
        False)) = None
   \<and> (\<exists>v. fst (fst (xmlToMapParser (defaults\<lparr>lowerCase := True, snakeCaseKeys := True\<rparr>)
        example_lib [] []
        [Tok (StartElement ''My-Tag'' []), Tok (CharData ''1''), Tok (EndElement ''My-Tag'')]
        False)) = Some [(''my_tag'', v)])"
proof -
  let ?doc = "[Tok (StartElement ''p'' []), Tok (StartElement ''c'' []), Tok (CharData ''1''),
       Tok (EndElement ''c''), Tok (EndElement ''p'')]"
  let ?cfg = "defaults\<lparr>lowerCase := True, snakeCaseKeys := True\<rparr>"
  let ?doc' = "[Tok (StartElement ''My-Tag'' []), Tok (CharData ''1''), Tok (EndElement ''My-Tag'')]"
  have a: "snd (fst (xmlToMapParser defaults example_lib [] [] ?doc False)) = None"
    by code_simp
  have b: "normKey defaults example_lib ''c'' \<noteq> []"
    by code_simp
  have c: "snd (fst (xmlToMapParser defaults example_lib ''c'' []
      [Tok (CharData ''1''), Tok (EndElement ''c'')] False)) = None"
    by code_simp
  have a': "snd (fst (xmlToMapParser ?cfg example_lib [] [] ?doc' False)) = None"
    by code_simp
  have k: "rootKey defaults example_lib ?doc = ''p''" "normKey defaults example_lib ''c'' = ''c''"
    "rootKey ?cfg example_lib ?doc' = ''my_tag''"
    by code_simp+
  have 1: "(\<exists>v. fst (fst (xmlToMapParser defaults example_lib [] [] ?doc False)) = Some [(''p'', v)])
    \<and> (\<exists>v. fst (fst (xmlToMapParser defaults example_lib ''c'' []
        [Tok (CharData ''1''), Tok (EndElement ''c'')] False)) = Some [(''c'', v)])"
    using C10_decode_returns_singleton [where cfg = defaults and lib = example_lib and p = ?doc
        and r = False and name = "''c''" and attrs = "[]"
        and q = "[Tok (CharData ''1''), Tok (EndElement ''c'')]"] a b c
    unfolding k by blast
  have 2: "\<exists>v. fst (fst (xmlToMapParser ?cfg example_lib [] [] ?doc' False)) = Some [(''my_tag'', v)]"
    using C10_decode_returns_singleton [where cfg = ?cfg and lib = example_lib and p = ?doc'
        and r = False] a'
    unfolding k by blast
  from a b c a' 1 2 show ?thesis
    by blast
qed

text \<open>
  C8, as stated, fails: the error that the decode returns carries no count of the events
  it has consumed. A tokenizer error met at once and the same error met after two events
  give the same error value, from the decoder and from \<open>HandleXmlReader\<close> alike.
\<close>

theorem C8_error_without_event_count_counterexample:
  "xmlToMapParser defaults example_lib [] [] [Fail ''x''] False
     = ((None, Some (Error ''xml.Decoder.Token() - x'')), [])
   \<and> xmlToMapParser defaults example_lib [] [] [Tok (StartElement ''a'' []), Tok (CharData ''t''), Fail ''x''] False
     = ((None, Some (Error ''xml.Decoder.Token() - x'')), [])
   \<and> HandleXmlReader defaults example_lib [Fail ''x''] (\<lambda>m. True) (\<lambda>e. False)
     = (Some (Error ''[xmlReader: 1] xml.Decoder.Token() - x''), [])
   \<and> HandleXmlReader defaults example_lib [Tok (StartElement ''a'' []), Tok (CharData ''t''), Fail ''x'']
       (\<lambda>m. True) (\<lambda>e. False)
     = (Some (Error ''[xmlReader: 1] xml.Decoder.Token() - x''), [])"
  by code_simp

text \<open>
  C8, amended. A decode that returns an error returns no map with it. When the tokenizer
  reports an error other than the end of the stream where the decoder asks for its next
  token (the events before it are such that the decode would otherwise run into the end of
  the stream), the decode returns no map and the tokenizer's message behind the fixed prefix
  \<open>xml.Decoder.Token() - \<close>, with no count in it. The end of the stream is returned as
  \<open>io.EOF\<close> itself. \<open>HandleXmlReader\<close> is its loop started at 0; in the round after \<open>n\<close>
  documents have been asked for, whatever \<open>n\<close> is and whatever is left of the reader, the
  loop stops without an error when the decode returns \<open>io.EOF\<close>; it hands any other error
  to the error handler behind \<open>[xmlReader: n+1]\<close>, and returns it when the handler says
  stop and goes on with round \<open>n+1\<close> otherwise; and it hands a decoded map to the map
  handler, and stops without an error when that handler says stop and goes on with round
  \<open>n+1\<close> otherwise.
\<close>

theorem C8_decode_error_propagation:
  "(snd (fst (xmlToMapParser cfg lib skey a p r)) \<noteq> None \<longrightarrow>
      fst (fst (xmlToMapParser cfg lib skey a p r)) = None)
   \<and> (snd (fst (xmlToMapParser cfg lib skey a p r)) = Some EOF \<longrightarrow>
      xmlToMapParser cfg lib skey a (p @ Fail e # post) r
        = ((None, Some (Error (''xml.Decoder.Token() - '' @ e))), post))
   \<and> xmlToMapParser cfg lib [] [] [] r = ((None, Some EOF), [])
   \<and> HandleXmlReader cfg lib [] mapHandler errHandler = (None, [])
   \<and> (NewMapXmlReader cfg lib q [] = ((m, Some (Error s)), rest)
        \<and> \<not> errHandler (Error (''[xmlReader: 1] '' @ s)) \<longrightarrow>
      HandleXmlReader cfg lib q mapHandler errHandler
        = (Some (Error (''[xmlReader: 1] '' @ s)), rest))
   \<and> HandleXmlReader cfg lib q mapHandler errHandler
        = HandleXmlReader_from cfg lib 0 q mapHandler errHandler
   \<and> (NewMapXmlReader cfg lib q [] = ((m, Some EOF), rest) \<longrightarrow>
        HandleXmlReader_from cfg lib n q mapHandler errHandler = (None, rest))
   \<and> (NewMapXmlReader cfg lib q [] = ((m, Some (Error s)), rest) \<longrightarrow>
        HandleXmlReader_from cfg lib n q mapHandler errHandler
          = (if errHandler (Error (''[xmlReader: '' @ Itoa (n + 1) @ ''] '' @ s))
             then HandleXmlReader_from cfg lib (n + 1) rest mapHandler errHandler
             else (Some (Error (''[xmlReader: '' @ Itoa (n + 1) @ ''] '' @ s)), rest)))
   \<and> (NewMapXmlReader cfg lib q [] = ((Some m', None), rest) \<longrightarrow>
        HandleXmlReader_from cfg lib n q mapHandler errHandler
          = (if length m' \<noteq> 0 \<and> \<not> mapHandler m' then (None, rest)
             else HandleXmlReader_from cfg lib (n + 1) rest mapHandler errHandler))"
proof -
  have n: "normKey cfg lib [] = []"
    by (simp add: normKey_def ToLower_def snake_def)
  have one: "returns_one k res \<Longrightarrow> snd res \<noteq> None \<Longrightarrow> fst res = None" for k res
    by (auto simp: returns_one_def)
  have i: "Itoa 1 = ''1''"
    by code_simp
  have a: "snd (fst (xmlToMapParser cfg lib skey a p r)) \<noteq> None \<longrightarrow>
      fst (fst (xmlToMapParser cfg lib skey a p r)) = None"
    using decoder_returns_one(1) [of cfg lib skey p a r] one by blast
  have b: "snd (fst (xmlToMapParser cfg lib skey a p r)) = Some EOF \<longrightarrow>
      xmlToMapParser cfg lib skey a (p @ Fail e # post) r
        = ((None, Some (Error (''xml.Decoder.Token() - '' @ e))), post)"
    using decoder_frame(1) [of cfg lib skey a p r] by blast
  have c: "xmlToMapParser cfg lib [] [] [] r = ((None, Some EOF), [])"
    by (simp add: xmlToMapParser.simps n)
  have d: "HandleXmlReader cfg lib [] mapHandler errHandler = (None, [])"
    by (simp add: HandleXmlReader_def NewMapXmlReader_def xmlToMapParser.simps n)
  have e: "NewMapXmlReader cfg lib q [] = ((m, Some (Error s)), rest)
        \<and> \<not> errHandler (Error (''[xmlReader: 1] '' @ s)) \<longrightarrow>
      HandleXmlReader cfg lib q mapHandler errHandler
        = (Some (Error (''[xmlReader: 1] '' @ s)), rest)"
    by (simp add: HandleXmlReader_def i)
  have f: "HandleXmlReader cfg lib q mapHandler errHandler
        = HandleXmlReader_from cfg lib 0 q mapHandler errHandler"
    by (simp only: HandleXmlReader_def)
  have g: "NewMapXmlReader cfg lib q [] = ((m, Some EOF), rest) \<longrightarrow>
        HandleXmlReader_from cfg lib n q mapHandler errHandler = (None, rest)"
    by simp
  have h: "NewMapXmlReader cfg lib q [] = ((m, Some (Error s)), rest) \<longrightarrow>
        HandleXmlReader_from cfg lib n q mapHandler errHandler
          = (if errHandler (Error (''[xmlReader: '' @ Itoa (n + 1) @ ''] '' @ s))
             then HandleXmlReader_from cfg lib (n + 1) rest mapHandler errHandler
             else (Some (Error (''[xmlReader: '' @ Itoa (n + 1) @ ''] '' @ s)), rest))"
    by (subst HandleXmlReader_from.simps) simp
  have j: "NewMapXmlReader cfg lib q [] = ((Some m', None), rest) \<longrightarrow>
        HandleXmlReader_from cfg lib n q mapHandler errHandler
          = (if length m' \<noteq> 0 \<and> \<not> mapHandler m' then (None, rest)
             else HandleXmlReader_from cfg lib (n + 1) rest mapHandler errHandler)"
    by (subst HandleXmlReader_from.simps) simp
  from a b c d e f g h j show ?thesis by blast
qed

theorem C8_decode_error_propagation_witness:
  "snd (fst (xmlToMapParser defaults example_lib [] []
        [Tok (StartElement ''a'' []), Tok (CharData ''t'')] False))
      = Some EOF
   \<and> xmlToMapParser defaults example_lib [] [] ([Tok (StartElement ''a'' []), Tok (CharData ''t'')]
         @ Fail ''x'' # [Tok (EndElement ''a'')]) False
      = ((None, Some (Error ''xml.Decoder.Token() - x'')), [Tok (EndElement ''a'')])
   \<and> fst (fst (xmlToMapParser defaults example_lib [] []
        [Tok (StartElement ''a'' []), Tok (CharData ''t'')] False))
      = None
   \<and> \<not> (\<lambda>e. False) (Error (''[xmlReader: 1] '' @ ''xml.Decoder.Token() - x''))
   \<and> HandleXmlReader defaults example_lib
         [Tok (StartElement ''a'' []), Fail ''x'', Tok (EndElement ''a'')] (\<lambda>m. True) (\<lambda>e. False)
      = (Some (Error ''[xmlReader: 1] xml.Decoder.Token() - x''), [Tok (EndElement ''a'')])
   \<and> NewMapXmlReader defaults example_lib [Tok (StartElement ''c'' []), Fail ''x''] []
      = ((None, Some (Error ''xml.Decoder.Token() - x'')), [])
   \<and> HandleXmlReader_from defaults example_lib 2 [Tok (StartElement ''c'' []), Fail ''x'']
         (\<lambda>m. True) (\<lambda>e. False)
      = (Some (Error ''[xmlReader: 3] xml.Decoder.Token() - x''), [])
   \<and> NewMapXmlReader defaults example_lib [Tok (Comment ''end'')] [] = ((None, Some EOF), [])
   \<and> HandleXmlReader_from defaults example_lib 2 [Tok (Comment ''end'')] (\<lambda>m. True) (\<lambda>e. False)
      = (None, [])
   \<and> HandleXmlReader defaults example_lib
         [Tok (StartElement ''a'' []), Tok (EndElement ''a''),
          Tok (StartElement ''b'' []), Tok (EndElement ''b''),
          Tok (StartElement ''c'' []), Fail ''x''] (\<lambda>m. True) (\<lambda>e. False)
      = (Some (Error ''[xmlReader: 3] xml.Decoder.Token() - x''), [])
   \<and> HandleXmlReader defaults example_lib
         [Tok (StartElement ''a'' []), Tok (EndElement ''a''),
          Tok (StartElement ''b'' []), Tok (EndElement ''b''),
          Tok (Comment ''end'')] (\<lambda>m. True) (\<lambda>e. False)
      = (None, [])"
proof -
  let ?p = "[Tok (StartElement ''a'' []), Tok (CharData ''t'')]"
  have a: "snd (fst (xmlToMapParser defaults example_lib [] [] ?p False)) = Some EOF"
    by code_simp
  have b: "NewMapXmlReader defaults example_lib
        [Tok (StartElement ''a'' []), Fail ''x'', Tok (EndElement ''a'')] []
      = ((None, Some (Error ''xml.Decoder.Token() - x'')), [Tok (EndElement ''a'')])"
    by code_simp
  have c: "NewMapXmlReader defaults example_lib [Tok (StartElement ''c'' []), Fail ''x''] []
      = ((None, Some (Error ''xml.Decoder.Token() - x'')), [])"
    by code_simp
  have d: "NewMapXmlReader defaults example_lib [Tok (Comment ''end'')] [] = ((None, Some EOF), [])"
    by code_simp
  have i: "Itoa (2 + 1) = ''3''"
    by code_simp
  have w: "HandleXmlReader defaults example_lib
         [Tok (StartElement ''a'' []), Tok (EndElement ''a''),
          Tok (StartElement ''b'' []), Tok (EndElement ''b''),
          Tok (StartElement ''c'' []), Fail ''x''] (\<lambda>m. True) (\<lambda>e. False)
      = (Some (Error ''[xmlReader: 3] xml.Decoder.Token() - x''), [])"
    "HandleXmlReader defaults example_lib
         [Tok (StartElement ''a'' []), Tok (EndElement ''a''),
          Tok (StartElement ''b'' []), Tok (EndElement ''b''),
          Tok (Comment ''end'')] (\<lambda>m. True) (\<lambda>e. False)
      = (None, [])"
    by code_simp+
  have 1: "snd (fst (xmlToMapParser defaults example_lib [] [] ?p False)) = Some EOF
   \<and> xmlToMapParser defaults example_lib [] [] (?p @ Fail ''x'' # [Tok (EndElement ''a'')]) False
      = ((None, Some (Error ''xml.Decoder.Token() - x'')), [Tok (EndElement ''a'')])
   \<and> fst (fst (xmlToMapParser defaults example_lib [] [] ?p False)) = None
   \<and> \<not> (\<lambda>e. False) (Error (''[xmlReader: 1] '' @ ''xml.Decoder.Token() - x''))
   \<and> HandleXmlReader defaults example_lib
         [Tok (StartElement ''a'' []), Fail ''x'', Tok (EndElement ''a'')] (\<lambda>m. True) (\<lambda>e. False)
      = (Some (Error ''[xmlReader: 1] xml.Decoder.Token() - x''), [Tok (EndElement ''a'')])"
    using C8_decode_error_propagation [where cfg = defaults and lib = example_lib and skey = "[]"
        and a = "[]"
        and p = ?p and r = False and e = "''x''" and post = "[Tok (EndElement ''a'')]"
        and q = "[Tok (StartElement ''a'' []), Fail ''x'', Tok (EndElement ''a'')]"
        and m = None and s = "''xml.Decoder.Token() - x''" and rest = "[Tok (EndElement ''a'')]"
        and errHandler = "\<lambda>e. False" and mapHandler = "\<lambda>m. True"]
      a b
    by simp
  have 2: "HandleXmlReader_from defaults example_lib 2 [Tok (StartElement ''c'' []), Fail ''x'']
         (\<lambda>m. True) (\<lambda>e. False)
      = (Some (Error ''[xmlReader: 3] xml.Decoder.Token() - x''), [])"
    using C8_decode_error_propagation [where cfg = defaults and lib = example_lib
        and q = "[Tok (StartElement ''c'' []), Fail ''x'']" and n = 2
        and m = None and s = "''xml.Decoder.Token() - x''" and rest = "[]"
        and errHandler = "\<lambda>e. False" and mapHandler = "\<lambda>m. True"]
      c i
    by simp
  have 3: "HandleXmlReader_from defaults example_lib 2 [Tok (Comment ''end'')] (\<lambda>m. True) (\<lambda>e. False)
      = (None, [])"
    using C8_decode_error_propagation [where cfg = defaults and lib = example_lib
        and q = "[Tok (Comment ''end'')]" and n = 2 and m = None and rest = "[]"
        and errHandler = "\<lambda>e. False" and mapHandler = "\<lambda>m. True"]
      d
    by simp
  from 1 2 3 c d w show ?thesis
    by blast
qed

section \<open>Repeated sibling elements\<close>

lemma promote_nonempty: "promote na key val \<noteq> []"
  by (cases na; cases "map_of na key")
     (auto simp: promote_def split: option.splits if_splits)

lemma collect_Cons: "collect cur (v # vs) = collect (collect cur [v]) vs"
  using collect_append [of cur "[v]" vs] by simp

lemma members_of_refl: "members_of cfg na na []"
  by (simp add: members_of_def)

lemma members_of_text:
  "members_of cfg (AList.update (textK cfg) c na) na' kids \<Longrightarrow> members_of cfg na na' kids"
  by (simp add: members_of_def update_conv')

lemma members_of_promote:
  assumes "members_of cfg (promote na key val) na' kids"
  shows "members_of cfg na na' ((key, val) # kids)"
  unfolding members_of_def
proof (intro allI impI)
  fix k assume "k \<noteq> textK cfg"
  with assms have m: "map_of na' k
      = collect (map_of (promote na key val) k) (map snd (filter (\<lambda>c. fst c = k) kids))"
    by (simp add: members_of_def)
  show "map_of na' k = collect (map_of na k) (map snd (filter (\<lambda>c. fst c = k) ((key, val) # kids)))"
  proof (cases "k = key")
    case True
    then show ?thesis
      using m collect_Cons [of "map_of na key" val "map snd (filter (\<lambda>c. fst c = key) kids)"]
      by (simp add: map_of_promote)
  next
    case False
    then show ?thesis
      using m by (simp add: map_of_promote)
  qed
qed

lemma loop_childElements:
  "childElements cfg lib r seq p = Some (kids, rest) \<Longrightarrow> skey \<noteq> [] \<Longrightarrow>
   n = [] \<or> (\<exists>v. n = [(skey, v)]) \<Longrightarrow>
   \<exists>n' na' seq'. tokenLoop cfg lib r skey n na seq p = tokenLoop cfg lib r skey n' na' seq' rest
      \<and> (n' = [] \<or> (\<exists>v. n' = [(skey, v)]))
      \<and> (na \<noteq> [] \<or> kids \<noteq> [] \<longrightarrow> na' \<noteq> [])
      \<and> members_of cfg na na' kids"
proof (induct cfg lib r seq p arbitrary: kids n na rule: childElements.induct)
  case (1 cfg lib r seq)
  then show ?case by simp
next
  case (2 cfg lib r seq e p)
  then show ?case by simp
next
  case (3 cfg lib r seq name p)
  then show ?case by (auto intro: members_of_refl)
next
  case (4 cfg lib r seq name attrs p)
  from "4.prems"(1) obtain kv others p' kids' where
    x: "xmlToMapParser cfg lib name attrs p r = ((Some (kv # others), None), p')"
    and c: "childElements cfg lib r (snd (tagSeqNum cfg (snd kv) seq)) p' = Some (kids', rest)"
    and k: "kids = (fst kv, fst (tagSeqNum cfg (snd kv) seq)) # kids'"
    by (auto split: prod.splits option.splits list.splits)
  let ?na = "promote na (fst kv) (fst (tagSeqNum cfg (snd kv) seq))"
  from "4.hyps" [OF x [symmetric] refl refl refl refl c "4.prems"(2,3), of ?na]
  obtain n' na' seq' where
    l: "tokenLoop cfg lib r skey n ?na (snd (tagSeqNum cfg (snd kv) seq)) p'
          = tokenLoop cfg lib r skey n' na' seq' rest"
    and n: "n' = [] \<or> (\<exists>v. n' = [(skey, v)])"
    and e: "?na \<noteq> [] \<or> kids' \<noteq> [] \<longrightarrow> na' \<noteq> []"
    and m: "members_of cfg ?na na' kids'"
    by blast
  have "tokenLoop cfg lib r skey n na seq (Tok (StartElement name attrs) # p)
          = tokenLoop cfg lib r skey n' na' seq' rest"
    using "4.prems"(2) x l by (cases kv) simp
  moreover have "na' \<noteq> []"
    using e promote_nonempty by blast
  moreover have "members_of cfg na na' kids"
    using m k members_of_promote by simp
  ultimately show ?case
    using n by blast
next
  case (5 cfg lib r seq d p)
  let ?tt = "if xmlEscapeCharsDecoder cfg then escapeChars (Trim d (trimRunes cfg))
             else Trim d (trimRunes cfg)"
  from "5.prems"(1) have c: "childElements cfg lib r seq p = Some (kids, rest)"
    by simp
  consider (blank) "length ?tt = 0"
    | (tx) "length ?tt > 0" "length na > 0 \<or> decodeSimpleValuesAsMap cfg"
    | (simple) "length ?tt > 0" "\<not> (length na > 0 \<or> decodeSimpleValuesAsMap cfg)"
    by blast
  then show ?case
  proof cases
    case blank
    then have "tokenLoop cfg lib r skey n na seq (Tok (CharData d) # p) = tokenLoop cfg lib r skey n na seq p"
      by simp
    with "5.hyps" [OF c "5.prems"(2,3), of na] show ?thesis
      by simp
  next
    case tx
    let ?na = "AList.update (textK cfg) (cast cfg lib ?tt r (textK cfg)) na"
    from tx "5.prems"(2)
    have u: "tokenLoop cfg lib r skey n na seq (Tok (CharData d) # p) = tokenLoop cfg lib r skey n ?na seq p"
      by simp
    from "5.hyps" [OF c "5.prems"(2,3), of ?na]
    obtain n' na' seq' where
      l: "tokenLoop cfg lib r skey n ?na seq p = tokenLoop cfg lib r skey n' na' seq' rest"
      and n: "n' = [] \<or> (\<exists>v. n' = [(skey, v)])"
      and e: "?na \<noteq> [] \<or> kids \<noteq> [] \<longrightarrow> na' \<noteq> []"
      and m: "members_of cfg ?na na' kids"
      by blast
    have "?na \<noteq> []"
      by (cases na) (auto split: if_splits)
    with e have "na' \<noteq> []" by blast
    moreover have "members_of cfg na na' kids"
      using m by (rule members_of_text)
    ultimately show ?thesis
      using u l n by auto
  next
    case simple
    let ?n = "AList.update skey (cast cfg lib ?tt r skey) n"
    from simple "5.prems"(2)
    have u: "tokenLoop cfg lib r skey n na seq (Tok (CharData d) # p) = tokenLoop cfg lib r skey ?n na seq p"
      by simp
    have "?n = [] \<or> (\<exists>v. ?n = [(skey, v)])"
      using "5.prems"(3) by auto
    from "5.hyps" [OF c "5.prems"(2) this, of na] u show ?thesis
      by simp
  qed
next
  case (6 cfg lib r seq c p)
  from "6.prems"(1) have c: "childElements cfg lib r seq p = Some (kids, rest)"
    by simp
  from "6.hyps" [OF c "6.prems"(2,3), of na] show ?case
    by simp
next
  case (7 cfg lib r seq t i p)
  from "7.prems"(1) have c: "childElements cfg lib r seq p = Some (kids, rest)"
    by simp
  from "7.hyps" [OF c "7.prems"(2,3), of na] show ?case
    by simp
next
  case (8 cfg lib r seq d p)
  from "8.prems"(1) have c: "childElements cfg lib r seq p = Some (kids, rest)"
    by simp
  from "8.hyps" [OF c "8.prems"(2,3), of na] show ?case
    by simp
qed

lemma tagSeqNum_not_list: "\<not> is_ListV v \<Longrightarrow> \<not> is_ListV (fst (tagSeqNum cfg v seq))"
  by (cases v) (auto simp: tagSeqNum_def is_ListV_def)

lemma childElements_not_list:
  "childElements cfg lib r seq p = Some (kids, rest) \<Longrightarrow> list_all (\<lambda>c. \<not> is_ListV (snd c)) kids"
proof (induct cfg lib r seq p arbitrary: kids rule: childElements.induct)
  case (4 cfg lib r seq name attrs p)
  from "4.prems"(1) obtain kv others p' kids' where
    x: "xmlToMapParser cfg lib name attrs p r = ((Some (kv # others), None), p')"
    and c: "childElements cfg lib r (snd (tagSeqNum cfg (snd kv) seq)) p' = Some (kids', rest)"
    and k: "kids = (fst kv, fst (tagSeqNum cfg (snd kv) seq)) # kids'"
    by (auto split: prod.splits option.splits list.splits)
  from decoder_returns_one(1) [of cfg lib name p attrs r] x have "\<not> is_ListV (snd kv)"
    by (auto simp: returns_one_def)
  with "4.hyps" [OF x [symmetric] refl refl refl refl c] k show ?case
    by (simp add: tagSeqNum_not_list)
qed simp_all

lemma fold_attrs_not_list:
  "(\<And>k a. map_of na k = Some a \<Longrightarrow> \<not> is_ListV a) \<Longrightarrow>
   map_of (fold (\<lambda>(name, v) na. AList.update (f name) (cast cfg lib (g v) r (f name)) na) attrs na) k
     = Some a \<Longrightarrow> \<not> is_ListV a"
proof (induction attrs arbitrary: na)
  case Nil
  then show ?case by simp
next
  case (Cons x attrs)
  obtain name v where x: "x = (name, v)" by (cases x)
  show ?case
  proof (rule Cons.IH [of "AList.update (f name) (cast cfg lib (g v) r (f name)) na"])
    fix k' a'
    assume "map_of (AList.update (f name) (cast cfg lib (g v) r (f name)) na) k' = Some a'"
    then show "\<not> is_ListV a'"
      using Cons.prems(1) [of k' a'] by (auto simp: update_conv' cast_not_list split: if_splits)
  next
    from Cons.prems(2) x
    show "map_of (fold (\<lambda>(name, v) na. AList.update (f name) (cast cfg lib (g v) r (f name)) na) attrs
            (AList.update (f name) (cast cfg lib (g v) r (f name)) na)) k = Some a"
      by simp
  qed
qed

lemma loadAttrs_not_list:
  "map_of (loadAttrs cfg lib r attrs) k = Some a \<Longrightarrow> \<not> is_ListV a"
  unfolding loadAttrs_def
  by (rule fold_attrs_not_list [where na = "[]"
        and g = "\<lambda>v. if xmlEscapeCharsDecoder cfg then escapeChars v else v"]) simp_all

lemma collect_attr:
  assumes "\<not> is_ListV a" and "vs \<noteq> []"
  shows "collect (Some a) vs = Some (ListV (a # vs))"
proof -
  from assms(1) have "(case a of ListV x \<Rightarrow> x | _ \<Rightarrow> [a]) = [a]"
    by (cases a) (auto simp: is_ListV_def)
  with assms(2) show ?thesis
    by (cases vs) (auto simp: collect_list)
qed

text \<open>
  C1, as stated, fails for a parent that holds an attribute under the key of a child, which
  happens when the attribute prefix is empty (\<open>PrependAttrWithHyphen(false)\<close>): the first
  and only child \<open>x\<close> of \<open><p x="1"><x>2</x></p>\<close> is not stored bare but in a list, behind
  the value of the attribute.
\<close>

theorem C1_attribute_under_key_counterexample:
  "xmlToMapParser (defaults\<lparr>attrPrefix := []\<rparr>) example_lib [] []
      [Tok (StartElement ''p'' [(''x'', ''1'')]), Tok (StartElement ''x'' []), Tok (CharData ''2''),
       Tok (EndElement ''x''), Tok (EndElement ''p'')] False
     = ((Some [(''p'', MapV [(''x'', ListV [Str ''1'', Str ''2''])])], None), [])"
  by code_simp

text \<open>
  C1, amended. Storing a child into the parent's member map keeps a first value bare, turns
  an existing bare value into the list of that value followed by the new one, and appends
  to an existing list. For every parent element and every key that is not the text key:
  when the parent's children with that key have the values \<open>vs\<close> (in document order) and
  the parent holds no attribute under the key, the decoded parent holds under the key the
  bare value when there is one child, which is not a list, and the list \<open>vs\<close> when there
  are more; when the parent holds an attribute under the key, it holds the list of the
  attribute's value followed by \<open>vs\<close>.
\<close>

theorem C1_sibling_promotion:
  assumes "childElements cfg lib r 0 p = Some (kids, Tok (EndElement e) # rest)"
    and "normKey cfg lib name \<noteq> []"
    and "\<not> (handleXMPPStreamTag cfg \<and> normKey cfg lib name = ''stream'')"
    and "k \<noteq> textK cfg"
    and "vs = map snd (filter (\<lambda>c. fst c = k) kids)"
    and "vs \<noteq> []"
  shows "(\<exists>m. xmlToMapParser cfg lib name attrs p r
                = ((Some [(normKey cfg lib name, MapV m)], None), rest)
            \<and> map_of m k
                = Some (case map_of (loadAttrs cfg lib r attrs) k of
                          None \<Rightarrow> (case vs of [v] \<Rightarrow> v | _ \<Rightarrow> ListV vs)
                        | Some a \<Rightarrow> ListV (a # vs)))
       \<and> list_all (\<lambda>v. \<not> is_ListV v) vs
       \<and> map_of (promote na k v) k
            = Some (case map_of na k of
                      None \<Rightarrow> v
                    | Some (ListV a) \<Rightarrow> ListV (a @ [v])
                    | Some u \<Rightarrow> ListV [u, v])"
proof -
  let ?skey = "normKey cfg lib name" and ?na = "loadAttrs cfg lib r attrs"
  from loop_childElements [OF assms(1,2), of "[]" ?na]
  obtain n' na' seq' where
    l: "tokenLoop cfg lib r ?skey [] ?na 0 p
          = tokenLoop cfg lib r ?skey n' na' seq' (Tok (EndElement e) # rest)"
    and n: "n' = [] \<or> (\<exists>v. n' = [(?skey, v)])"
    and ne: "?na \<noteq> [] \<or> kids \<noteq> [] \<longrightarrow> na' \<noteq> []"
    and m: "members_of cfg ?na na' kids"
    by blast
  from assms(5,6) have "kids \<noteq> []" by auto
  with ne have na': "na' \<noteq> []" by blast
  have nl: "list_all (\<lambda>v. \<not> is_ListV v) vs"
    using childElements_not_list [OF assms(1)] assms(5)
    by (simp add: list_all_iff)
  from m assms(4,5) have c: "map_of na' k = collect (map_of ?na k) vs"
    by (simp add: members_of_def)
  have v: "map_of na' k
      = Some (case map_of ?na k of
                None \<Rightarrow> (case vs of [v] \<Rightarrow> v | _ \<Rightarrow> ListV vs)
              | Some a \<Rightarrow> ListV (a # vs))"
  proof (cases "map_of ?na k")
    case None
    with c collect_fresh [OF nl assms(6)] show ?thesis by simp
  next
    case (Some a)
    with c collect_attr [OF loadAttrs_not_list [OF Some] assms(6)] show ?thesis by simp
  qed
  have "xmlToMapParser cfg lib name attrs p r = tokenLoop cfg lib r ?skey [] ?na 0 p"
    using assms(2,3) by (auto simp: xmlToMapParser.simps)
  then have x: "xmlToMapParser cfg lib name attrs p r
      = tokenLoop cfg lib r ?skey n' na' seq' (Tok (EndElement e) # rest)"
    using l by (rule trans)
  from n have "\<exists>m. tokenLoop cfg lib r ?skey n' na' seq' (Tok (EndElement e) # rest)
        = ((Some [(?skey, MapV m)], None), rest) \<and> map_of m k = map_of na' k"
  proof
    assume "n' = []"
    with assms(2) na' show ?thesis by simp
  next
    assume "\<exists>v. n' = [(?skey, v)]"
    then obtain u where "n' = [(?skey, u)]" ..
    with assms(2,4) na' show ?thesis by (simp add: update_conv')
  qed
  with x v have a: "\<exists>m. xmlToMapParser cfg lib name attrs p r
        = ((Some [(?skey, MapV m)], None), rest)
      \<and> map_of m k
          = Some (case map_of ?na k of
                    None \<Rightarrow> (case vs of [v] \<Rightarrow> v | _ \<Rightarrow> ListV vs)
                  | Some a \<Rightarrow> ListV (a # vs))"
    by simp
  have b: "map_of (promote na k v) k
            = Some (case map_of na k of
                      None \<Rightarrow> v
                    | Some (ListV a) \<Rightarrow> ListV (a @ [v])
                    | Some u \<Rightarrow> ListV [u, v])"
    by (simp add: map_of_promote split: option.splits gval.splits)
  from a nl b show ?thesis by blast
qed

theorem C1_sibling_promotion_witness:
  "childElements defaults example_lib False 0
      [Tok (StartElement ''c'' []), Tok (CharData ''1''), Tok (EndElement ''c''),
       Tok (StartElement ''c'' []), Tok (CharData ''2''), Tok (EndElement ''c''),
       Tok (StartElement ''d'' []), Tok (CharData ''3''), Tok (EndElement ''d''),
       Tok (EndElement ''p'')]
     = Some ([(''c'', Str ''1''), (''c'', Str ''2''), (''d'', Str ''3'')], [Tok (EndElement ''p'')])
   \<and> (\<exists>m. xmlToMapParser defaults example_lib ''p'' []
      [Tok (StartElement ''c'' []), Tok (CharData ''1''), Tok (EndElement ''c''),
       Tok (StartElement ''c'' []), Tok (CharData ''2''), Tok (EndElement ''c''),
       Tok (StartElement ''d'' []), Tok (CharData ''3''), Tok (EndElement ''d''),
       Tok (EndElement ''p'')] False = ((Some [(''p'', MapV m)], None), [])
       \<and> map_of m ''c'' = Some (ListV [Str ''1'', Str ''2'']))
   \<and> (\<exists>m. xmlToMapParser defaults example_lib ''p'' []
      [Tok (StartElement ''c'' []), Tok (CharData ''1''), Tok (EndElement ''c''),
       Tok (StartElement ''c'' []), Tok (CharData ''2''), Tok (EndElement ''c''),
       Tok (StartElement ''d'' []), Tok (CharData ''3''), Tok (EndElement ''d''),
       Tok (EndElement ''p'')] False = ((Some [(''p'', MapV m)], None), [])
       \<and> map_of m ''d'' = Some (Str ''3''))
   \<and> (\<exists>m. xmlToMapParser (defaults\<lparr>attrPrefix := []\<rparr>) example_lib ''p'' [(''d'', ''0'')]
      [Tok (StartElement ''c'' []), Tok (CharData ''1''), Tok (EndElement ''c''),
       Tok (StartElement ''c'' []), Tok (CharData ''2''), Tok (EndElement ''c''),
       Tok (StartElement ''d'' []), Tok (CharData ''3''), Tok (EndElement ''d''),
       Tok (EndElement ''p'')] False = ((Some [(''p'', MapV m)], None), [])
       \<and> map_of m ''d'' = Some (ListV [Str ''0'', Str ''3'']))"
proof -
  let ?p = "[Tok (StartElement ''c'' []), Tok (CharData ''1''), Tok (EndElement ''c''),
       Tok (StartElement ''c'' []), Tok (CharData ''2''), Tok (EndElement ''c''),
       Tok (StartElement ''d'' []), Tok (CharData ''3''), Tok (EndElement ''d''),
       Tok (EndElement ''p'')]"
  let ?kids = "[(''c'', Str ''1''), (''c'', Str ''2''), (''d'', Str ''3'')]"
  let ?cfg = "defaults\<lparr>attrPrefix := []\<rparr>"
  have c: "childElements defaults example_lib False 0 ?p = Some (?kids, Tok (EndElement ''p'') # [])"
    "childElements ?cfg example_lib False 0 ?p = Some (?kids, Tok (EndElement ''p'') # [])"
    by code_simp+
  have k: "normKey defaults example_lib ''p'' \<noteq> []" "normKey defaults example_lib ''p'' = ''p''"
    "\<not> (handleXMPPStreamTag defaults \<and> normKey defaults example_lib ''p'' = ''stream'')"
    "''c'' \<noteq> textK defaults" "''d'' \<noteq> textK defaults"
    "map_of (loadAttrs defaults example_lib False []) ''c'' = None"
    "map_of (loadAttrs defaults example_lib False []) ''d'' = None"
    by code_simp+
  have k': "normKey ?cfg example_lib ''p'' \<noteq> []" "normKey ?cfg example_lib ''p'' = ''p''"
    "\<not> (handleXMPPStreamTag ?cfg \<and> normKey ?cfg example_lib ''p'' = ''stream'')"
    "''d'' \<noteq> textK ?cfg"
    "map_of (loadAttrs ?cfg example_lib False [(''d'', ''0'')]) ''d'' = Some (Str ''0'')"
    by code_simp+
  have vc: "[Str ''1'', Str ''2''] = map snd (filter (\<lambda>c. fst c = ''c'') ?kids)"
    and vd: "[Str ''3''] = map snd (filter (\<lambda>c. fst c = ''d'') ?kids)"
    by simp_all
  from C1_sibling_promotion [OF c(1) k(1) k(3) k(4) vc, where na = "[]" and v = gval.Nil
          and attrs = "[]"]
       C1_sibling_promotion [OF c(1) k(1) k(3) k(5) vd, where na = "[]" and v = gval.Nil
          and attrs = "[]"]
       C1_sibling_promotion [OF c(2) k'(1) k'(3) k'(4) vd, where na = "[]" and v = gval.Nil
          and attrs = "[(''d'', ''0'')]"] c(1)
  show ?thesis
    unfolding k(2) k'(2) k(6) k(7) k'(5) by simp
qed

section \<open>Empty elements, text and attributes\<close>

lemma escapeChars_Nil [simp]: "escapeChars [] = []"
  by (simp add: escapeChars_def)

lemma normKey_Nil [simp]: "normKey cfg lib [] = []"
  by (simp add: normKey_def ToLower_def snake_def)






text \<open>
  C2. With the default configuration an element with an attribute \<open>a\<close> and character data
  that the trim does not empty decodes to a map with the attribute under \<open>-a\<close> and the
  trimmed text under the text key \<open>$\<close>; the text of an element with no attributes and no
  children is the element's value itself, a string; and the map of an attribute and a
  text entry encodes as the element with the attribute \<open>a="..."\<close> and the text inside it.
\<close>

theorem C2_text_with_attributes:
  assumes "e \<noteq> []" and "a \<noteq> []" and "Trim t (trimRunes defaults) \<noteq> []"
  shows "xmlToMapParser defaults lib [] []
            (Tok (StartElement e [(a, v)]) # Tok (CharData t) # Tok (EndElement e') # rest) False
           = ((Some [(e, MapV [(''-'' @ a, Str v), (''$'', Str (Trim t (trimRunes defaults)))])],
               None), rest)
       \<and> xmlToMapParser defaults lib [] []
            (Tok (StartElement e []) # Tok (CharData t) # Tok (EndElement e') # rest) False
           = ((Some [(e, Str (Trim t (trimRunes defaults)))], None), rest)
       \<and> Xml defaults lib [(e, MapV [(''-'' @ a, Str v), (''$'', Str s)])] []
           = (Some (''<'' @ e @ '' '' @ a @ ''='' @ [CHR 0x22] @ v @ [CHR 0x22] @ ''>'' @ s
                      @ ''</'' @ e @ ''>''), None)"
proof -
  have d: "lowerCase defaults = False" "snakeCaseKeys defaults = False"
    "handleXMPPStreamTag defaults = False" "xmlEscapeCharsDecoder defaults = False"
    "decodeSimpleValuesAsMap defaults = False" "textK defaults = ''$''"
    "attrPrefix defaults = ''-''" "checkTagToSkip defaults = None"
    "xmlEscapeChars defaults = False" "useGoXmlEmptyElemSyntax defaults = False"
    "xmlCheckIsValid defaults = False"
    by (simp_all add: defaults_def)
  have n: "normKey defaults lib x = x" for x
    by (simp add: normKey_def d)
  have c: "cast defaults lib x False y = Str x" for x y
    by (simp add: cast_def d)
  have la: "loadAttrs defaults lib False [(a, v)] = [(''-'' @ a, Str v)]"
    by (simp add: loadAttrs_def attrKey_def d c)
  have 1: "xmlToMapParser defaults lib [] []
            (Tok (StartElement e [(a, v)]) # Tok (CharData t) # Tok (EndElement e') # rest) False
           = ((Some [(e, MapV [(''-'' @ a, Str v), (''$'', Str (Trim t (trimRunes defaults)))])],
               None), rest)"
    using assms(1,3) by (simp add: xmlToMapParser.simps n d la c)
  have 2: "xmlToMapParser defaults lib [] []
            (Tok (StartElement e []) # Tok (CharData t) # Tok (EndElement e') # rest) False
           = ((Some [(e, Str (Trim t (trimRunes defaults)))], None), rest)"
    using assms(1,3) by (simp add: xmlToMapParser.simps n d c loadAttrs_def)
  have ak: "isAttrKey defaults (CHR ''-'' # a)" "\<not> isAttrKey defaults ''$''"
    using assms(2) by (simp_all add: isAttrKey_def lenAttrPrefix_def d)
  have sa: "sortedAttrs defaults lib [(CHR ''-'' # a, Str v), (''$'', Str s)] = Inr [(a, v)]"
    using ak by (simp add: sortedAttrs_def attrValue_def escaped_def d lenAttrPrefix_def)
  have 3: "marshalMapToXmlIndent defaults lib False [] e
             (MapV [(''-'' @ a, Str v), (''$'', Str s)])
             \<lparr>indent = [], cnt = 0, padding = [], mapDepth = 0, start = 0\<rparr>
           = (''<'' @ e @ '' '' @ a @ ''='' @ [CHR 0x22] @ v @ [CHR 0x22] @ ''>'' @ s
                      @ ''</'' @ e @ ''>'', None)"
    by (subst marshalMapToXmlIndent.simps)
       (simp add: coerce_def mapHead_def sa openTag_def is_ListV_def writeAttrs_def d textOf_def
          escaped_def finish_def)
  from 1 2 3 show ?thesis
    by (simp add: Xml_def checkValid_def d)
qed

theorem C2_text_with_attributes_witness:
  "''e'' \<noteq> [] \<and> ''a'' \<noteq> [] \<and> Trim ''hi'' (trimRunes defaults) \<noteq> []
   \<and> xmlToMapParser defaults example_lib [] []
        [Tok (StartElement ''e'' [(''a'', ''1'')]), Tok (CharData ''hi''), Tok (EndElement ''e'')] False
       = ((Some [(''e'', MapV [(''-a'', Str ''1''), (''$'', Str ''hi'')])], None), [])
   \<and> xmlToMapParser defaults example_lib [] []
        [Tok (StartElement ''e'' []), Tok (CharData ''hi''), Tok (EndElement ''e'')] False
       = ((Some [(''e'', Str ''hi'')], None), [])
   \<and> Xml defaults example_lib [(''e'', MapV [(''-a'', Str ''1''), (''$'', Str ''hi'')])] []
       = (Some (''<e a='' @ [CHR 0x22] @ ''1'' @ [CHR 0x22] @ ''>hi</e>''), None)"
proof -
  have h: "''e'' \<noteq> []" "''a'' \<noteq> []" "Trim ''hi'' (trimRunes defaults) \<noteq> []"
    by code_simp+
  have t: "Trim ''hi'' (trimRunes defaults) = ''hi''"
    by code_simp
  from C2_text_with_attributes [OF h, where v = "''1''" and e' = "''e''" and rest = "[]"
      and lib = example_lib and s = "''hi''"] h
  show ?thesis
    unfolding t by simp
qed

section \<open>The root tag\<close>

text \<open>
  C5, as stated, fails for the indented encoder: a map with the single key \<open>k\<close> whose value
  is a list of maps only is written by \<open>Xml\<close> with \<open>k\<close> as the root tag, as the claim says,
  but by \<open>XmlIndent\<close> inside the default root tag \<open>doc\<close>.
\<close>

theorem C5_indent_wraps_list_of_maps_counterexample:
  "Xml defaults example_lib [(''k'', ListV [MapV [(''a'', Str ''1'')]])] []
     = (Some ''<k><a>1</a></k>'', None)
   \<and> XmlIndent defaults example_lib [(''k'', ListV [MapV [(''a'', Str ''1'')]])] [] [] []
     = (Some (''<doc>'' @ [CHR 0x0A] @ ''<k>'' @ [CHR 0x0A] @ ''<a>1</a>'' @ [CHR 0x0A]
              @ ''</k>'' @ [CHR 0x0A] @ ''</doc>''), None)
   \<and> XmlIndent defaults example_lib [(''k'', ListV [MapV [(''a'', Str ''1'')]])] [] [] []
     \<noteq> checkValid defaults example_lib
         (marshalMapToXmlIndent defaults example_lib True [] ''k'' (ListV [MapV [(''a'', Str ''1'')]])
            \<lparr>indent = [], cnt = 0, padding = [], mapDepth = 0, start = 0\<rparr>)"
  by code_simp

text \<open>
  C5, amended. With no root tag given and a map of exactly one entry, \<open>Xml\<close> takes the key
  as the root tag unless the value is a list with a member that is not a map, and
  \<open>XmlIndent\<close> takes the key as the root tag unless the value is a list, whatever its
  members; in the excepted cases the default root tag \<open>doc\<close> wraps the whole map. With one
  root tag given, that tag wraps the whole map; with a map of no or several entries and no
  root tag, the default root tag does.
\<close>

theorem C5_root_tag:
  "Xml cfg lib [(k, v)] []
     = checkValid cfg lib
         (if (case v of ListV vs \<Rightarrow> list_ex (\<lambda>x. \<not> is_MapV x) vs | _ \<Rightarrow> False)
          then marshalMapToXmlIndent cfg lib False [] DefaultRootTag (MapV [(k, v)])
                 \<lparr>indent = [], cnt = 0, padding = [], mapDepth = 0, start = 0\<rparr>
          else marshalMapToXmlIndent cfg lib False [] k v
                 \<lparr>indent = [], cnt = 0, padding = [], mapDepth = 0, start = 0\<rparr>)
   \<and> XmlIndent cfg lib [(k, v)] prefix ind []
     = checkValid cfg lib
         (if is_ListV v
          then marshalMapToXmlIndent cfg lib True [] DefaultRootTag (MapV [(k, v)])
                 \<lparr>indent = ind, cnt = 0, padding = prefix, mapDepth = 0, start = 0\<rparr>
          else marshalMapToXmlIndent cfg lib True [] k v
                 \<lparr>indent = ind, cnt = 0, padding = prefix, mapDepth = 0, start = 0\<rparr>)
   \<and> Xml cfg lib mv [tag]
     = checkValid cfg lib
         (marshalMapToXmlIndent cfg lib False [] tag (MapV mv)
            \<lparr>indent = [], cnt = 0, padding = [], mapDepth = 0, start = 0\<rparr>)
   \<and> XmlIndent cfg lib mv prefix ind [tag]
     = checkValid cfg lib
         (marshalMapToXmlIndent cfg lib True [] tag (MapV mv)
            \<lparr>indent = ind, cnt = 0, padding = prefix, mapDepth = 0, start = 0\<rparr>)
   \<and> (length mv \<noteq> 1 \<longrightarrow>
        Xml cfg lib mv []
          = checkValid cfg lib
              (marshalMapToXmlIndent cfg lib False [] DefaultRootTag (MapV mv)
                 \<lparr>indent = [], cnt = 0, padding = [], mapDepth = 0, start = 0\<rparr>)
        \<and> XmlIndent cfg lib mv prefix ind []
          = checkValid cfg lib
              (marshalMapToXmlIndent cfg lib True [] DefaultRootTag (MapV mv)
                 \<lparr>indent = ind, cnt = 0, padding = prefix, mapDepth = 0, start = 0\<rparr>))
   \<and> DefaultRootTag = ''doc''"
  by (cases v) (simp_all add: Xml_def XmlIndent_def DefaultRootTag_def is_ListV_def)

theorem C5_root_tag_witness:
  "length [(''a'', Str ''1''), (''b'', Str ''2'')] \<noteq> 1
   \<and> Xml defaults example_lib [(''a'', Str ''1''), (''b'', Str ''2'')] []
       = (Some ''<doc><a>1</a><b>2</b></doc>'', None)
   \<and> Xml defaults example_lib [(''k'', Str ''v'')] [] = (Some ''<k>v</k>'', None)
   \<and> Xml defaults example_lib [(''k'', ListV [Str ''1'', MapV []])] []
       = (Some ''<doc><k>1</k><k/></doc>'', None)
   \<and> Xml defaults example_lib [(''k'', Str ''v'')] [''root''] = (Some ''<root><k>v</k></root>'', None)"
proof -
  have l: "length [(''a'', Str ''1''), (''b'', Str ''2'')] \<noteq> 1"
    by simp
  have e: "checkValid defaults example_lib
             (marshalMapToXmlIndent defaults example_lib False [] DefaultRootTag
                (MapV [(''a'', Str ''1''), (''b'', Str ''2'')])
                \<lparr>indent = [], cnt = 0, padding = [], mapDepth = 0, start = 0\<rparr>)
           = (Some ''<doc><a>1</a><b>2</b></doc>'', None)"
    "checkValid defaults example_lib
             (marshalMapToXmlIndent defaults example_lib False [] ''k'' (Str ''v'')
                \<lparr>indent = [], cnt = 0, padding = [], mapDepth = 0, start = 0\<rparr>)
           = (Some ''<k>v</k>'', None)"
    "checkValid defaults example_lib
             (marshalMapToXmlIndent defaults example_lib False [] DefaultRootTag
                (MapV [(''k'', ListV [Str ''1'', MapV []])])
                \<lparr>indent = [], cnt = 0, padding = [], mapDepth = 0, start = 0\<rparr>)
           = (Some ''<doc><k>1</k><k/></doc>'', None)"
    "checkValid defaults example_lib
             (marshalMapToXmlIndent defaults example_lib False [] ''root'' (MapV [(''k'', Str ''v'')])
                \<lparr>indent = [], cnt = 0, padding = [], mapDepth = 0, start = 0\<rparr>)
           = (Some ''<root><k>v</k></root>'', None)"
    by code_simp+
  from C5_root_tag [of defaults example_lib "''k''" "Str ''v''" "[]" "[]"
          "[(''a'', Str ''1''), (''b'', Str ''2'')]" "''root''"]
       C5_root_tag [of defaults example_lib "''k''" "ListV [Str ''1'', MapV []]" "[]" "[]"
          "[(''k'', Str ''v'')]" "''root''"] l e
  show ?thesis
    by (simp add: is_MapV_def)
qed

section \<open>The check of the encoded bytes\<close>

lemma encode_struct_fails:
  "marshalMapToXmlIndent cfg lib doIndent b k (Struct t s (Inl e)) p = (b, Some (Error e))"
  by (simp add: marshalMapToXmlIndent.simps coerce_def)

text \<open>
  C9. What the code does when the post-encode check is on: the bytes are read back, the
  first error of the tokenizer is returned with no bytes, and bytes whose tokens all parse
  are returned with no error - whatever the encoder's own error was, because the loop
  assigns \<open>err\<close> at every call of \<open>Token\<close>. A map with the single key \<open>k\<close> whose value is a
  struct that \<open>xml.Marshal\<close> rejects fails to encode with the check off, and is a success
  with no bytes when the check is on (the tokenizer meets the end of the empty input at
  once).
\<close>

theorem C9_check_hides_encode_error:
  assumes "Tokens lib [] = []"
  shows "Xml (cfg\<lparr>xmlCheckIsValid := False\<rparr>) lib [(k, Struct t s (Inl e))] []
           = (Some [], Some (Error e))
       \<and> Xml (cfg\<lparr>xmlCheckIsValid := True\<rparr>) lib [(k, Struct t s (Inl e))] []
           = (Some [], None)
       \<and> checkValid (cfg\<lparr>xmlCheckIsValid := True\<rparr>) lib' (b, err)
           = (case readBack (Tokens lib' b) of
                Some x \<Rightarrow> (None, Some (Error x))
              | None \<Rightarrow> (Some b, None))"
  using assms
  by (simp add: Xml_def checkValid_def encode_struct_fails split: option.splits)

theorem C9_check_hides_encode_error_witness:
  "Tokens example_lib [] = []
   \<and> Xml defaults example_lib
        [(''k'', Struct ''struct { C chan int }'' ''{<nil>}'' (Inl ''xml: unsupported type: chan int''))] []
       = (Some [], Some (Error ''xml: unsupported type: chan int''))
   \<and> Xml (defaults\<lparr>xmlCheckIsValid := True\<rparr>) example_lib
        [(''k'', Struct ''struct { C chan int }'' ''{<nil>}'' (Inl ''xml: unsupported type: chan int''))] []
       = (Some [], None)
   \<and> checkValid (defaults\<lparr>xmlCheckIsValid := True\<rparr>)
        (example_lib\<lparr>Tokens := \<lambda>b. [Tok (StartElement ''a'' []), Fail ''XML syntax error'']\<rparr>)
        (''<a'', None)
       = (None, Some (Error ''XML syntax error''))"
proof -
  have h: "Tokens example_lib [] = []"
    by (simp add: example_lib_def)
  have d: "defaults\<lparr>xmlCheckIsValid := False\<rparr> = defaults"
    by (simp add: defaults_def)
  from C9_check_hides_encode_error [OF h, of defaults "''k''" "''struct { C chan int }''"
      "''{<nil>}''" "''xml: unsupported type: chan int''"
      "example_lib\<lparr>Tokens := \<lambda>b. [Tok (StartElement ''a'' []), Fail ''XML syntax error'']\<rparr>"
      "''<a''" None] h
  show ?thesis
    unfolding d by simp
qed

section \<open>Invalid attribute values\<close>

lemma scanAttrs_invalid:
  "list_ex (invalidAttr cfg lib) vv \<Longrightarrow> \<exists>e. scanAttrs cfg lib vv = Inl (Error e)"
proof (induction vv)
  case Nil
  then show ?case by simp
next
  case (Cons kv vv)
  obtain k v where kv: "kv = (k, v)" by (cases kv)
  show ?case
  proof (cases "invalidAttr cfg lib kv")
    case True
    with kv show ?thesis by (simp add: invalidAttr_def)
  next
    case False
    with Cons.prems have "list_ex (invalidAttr cfg lib) vv" by simp
    from Cons.IH [OF this] obtain e where "scanAttrs cfg lib vv = Inl (Error e)" ..
    with kv show ?thesis by (auto split: option.splits)
  qed
qed















section \<open>The order of attributes and elements\<close>

lemma sort_key_unique:
  fixes k :: "'a \<Rightarrow> 'b::linorder"
  assumes "distinct (map k xs)" and "distinct (map k ys)" and "set xs = set ys"
  shows "sort_key k xs = sort_key k ys"
proof -
  have "map k (sort_key k xs) = map k (sort_key k ys)"
  proof (rule sorted_distinct_set_unique)
    show "sorted (map k (sort_key k xs))" "sorted (map k (sort_key k ys))"
      by simp_all
    show "distinct (map k (sort_key k xs))"
      using assms(1) by (simp add: distinct_map)
    show "distinct (map k (sort_key k ys))"
      using assms(2) by (simp add: distinct_map)
    show "set (map k (sort_key k xs)) = set (map k (sort_key k ys))"
      using assms(3) by simp
  qed
  moreover have "inj_on k (set (sort_key k xs) \<union> set (sort_key k ys))"
    using assms by (simp add: distinct_map)
  ultimately show ?thesis
    by (simp add: inj_on_map_eq_map)
qed

lemma scanAttrs_valid:
  "\<not> list_ex (invalidAttr cfg lib) vv \<Longrightarrow>
   scanAttrs cfg lib vv
     = Inr (map (\<lambda>kv. (drop (lenAttrPrefix cfg) (fst kv), the (attrValue cfg lib (snd kv))))
              (filter (\<lambda>kv. isAttrKey cfg (fst kv)) vv))"
  by (induction vv) (auto simp: invalidAttr_def)

lemma scanAttrs_Inr:
  assumes "scanAttrs cfg lib vv = Inr al"
  shows "\<not> list_ex (invalidAttr cfg lib) vv"
  using scanAttrs_invalid [of cfg lib vv] assms by auto

lemma bare_names_distinct:
  assumes "distinct (map fst vv)"
  shows "distinct (map fst (map (\<lambda>kv. (drop (lenAttrPrefix cfg) (fst kv), f kv))
            (filter (\<lambda>kv. isAttrKey cfg (fst kv)) vv)))"
proof -
  let ?n = "lenAttrPrefix cfg"
  let ?as = "filter (\<lambda>kv. isAttrKey cfg (fst kv)) vv"
  have d: "distinct (map fst ?as)"
    using assms by (rule distinct_map_filter)
  have "inj_on (drop ?n) (set (map fst ?as))"
  proof (rule inj_onI)
    fix x y
    assume "x \<in> set (map fst ?as)" and "y \<in> set (map fst ?as)" and e: "drop ?n x = drop ?n y"
    then have "take ?n x = take ?n y"
      by (auto simp: isAttrKey_def)
    with e show "x = y"
      by (metis append_take_drop_id)
  qed
  with d have "distinct (map (drop ?n) (map fst ?as))"
    by (simp only: distinct_map)
  then show ?thesis
    by (simp add: comp_def)
qed

lemma same_entries:
  assumes "distinct (map fst vv)" and "distinct (map fst vv')" and "set vv' = set vv"
  shows "map_of vv' = map_of vv" and "length vv' = length vv"
proof -
  show "map_of vv' = map_of vv"
    using assms by (simp add: map_of_inject_set)
  have "distinct vv" "distinct vv'"
    using assms(1,2) by (auto simp: distinct_map)
  then have "length vv = card (set vv)" "length vv' = card (set vv')"
    by (simp_all add: distinct_card)
  with assms(3) show "length vv' = length vv"
    by simp
qed

lemma elemlist_unique:
  assumes "distinct (map fst vv)" and "distinct (map fst vv')" and "set vv' = set vv"
  shows "elemlist cfg vv' = elemlist cfg vv"
  unfolding elemlist_def
  using assms by (intro sort_key_unique distinct_map_filter) simp_all

lemma sortedAttrs_unique:
  assumes "distinct (map fst vv)" and "distinct (map fst vv')" and "set vv' = set vv"
    and "sortedAttrs cfg lib vv = Inr al"
  shows "sortedAttrs cfg lib vv' = Inr al"
proof -
  from assms(4) have v: "\<not> list_ex (invalidAttr cfg lib) vv"
    by (auto simp: sortedAttrs_def split: sum.splits dest: scanAttrs_Inr)
  with assms(3) have v': "\<not> list_ex (invalidAttr cfg lib) vv'"
    by (simp add: list_ex_iff)
  have "sortedAttrs cfg lib vv' = sortedAttrs cfg lib vv"
    using assms(1,2,3) by (simp add: sortedAttrs_def scanAttrs_valid v v')
       (intro sort_key_unique bare_names_distinct, simp_all)
  with assms(4) show ?thesis
    by simp
qed

lemma sortedAttrs_sorted:
  assumes "sortedAttrs cfg lib vv = Inr al"
  shows "sorted (map fst al)"
    and "set al = (\<lambda>kv. (drop (lenAttrPrefix cfg) (fst kv), the (attrValue cfg lib (snd kv))))
                    ` {kv \<in> set vv. isAttrKey cfg (fst kv)}"
proof -
  from assms have v: "\<not> list_ex (invalidAttr cfg lib) vv"
    by (auto simp: sortedAttrs_def split: sum.splits dest: scanAttrs_Inr)
  from assms show "sorted (map fst al)"
    by (auto simp: sortedAttrs_def split: sum.splits)
  from assms show "set al = (\<lambda>kv. (drop (lenAttrPrefix cfg) (fst kv), the (attrValue cfg lib (snd kv))))
                    ` {kv \<in> set vv. isAttrKey cfg (fst kv)}"
    by (force simp: sortedAttrs_def scanAttrs_valid [OF v])
qed

lemma elemlist_sorted:
  "sorted (map fst (elemlist cfg vv))"
  "set (elemlist cfg vv) = {kv \<in> set vv. fst kv \<noteq> textK cfg \<and> \<not> isAttrKey cfg (fst kv)}"
  by (auto simp: elemlist_def)

lemma encode_unique:
  assumes "distinct (map fst vv)" and "distinct (map fst vv')" and "set vv' = set vv"
    and "sortedAttrs cfg lib vv = Inr al"
  shows "marshalMapToXmlIndent cfg lib doIndent b key (MapV vv') pp
       = marshalMapToXmlIndent cfg lib doIndent b key (MapV vv) pp"
  by (simp add: marshalMapToXmlIndent.simps [of cfg lib doIndent b key "MapV vv" pp]
        marshalMapToXmlIndent.simps [of cfg lib doIndent b key "MapV vv'" pp] coerce_def mapHead_def openTag_def is_ListV_def is_StrList_def
        sortedAttrs_unique [OF assms] assms(4) elemlist_unique [OF assms(1,2,3)]
        same_entries [OF assms(1,2,3)] cong: option.case_cong sum.case_cong)

lemma distinct_sort_key:
  "distinct (map k (sort_key k xs)) = distinct (map k xs)"
proof -
  have "set (map k (sort_key k xs)) = set (map k xs)"
    and "length (map k (sort_key k xs)) = length (map k xs)"
    by simp_all
  then show ?thesis
    by (metis card_distinct distinct_card)
qed

lemma sortedAttrs_distinct:
  assumes "distinct (map fst vv)" and "sortedAttrs cfg lib vv = Inr al"
  shows "distinct (map fst al)"
proof -
  from assms(2) have v: "\<not> list_ex (invalidAttr cfg lib) vv"
    by (auto simp: sortedAttrs_def split: sum.splits dest: scanAttrs_Inr)
  from bare_names_distinct [OF assms(1), of cfg "\<lambda>kv. the (attrValue cfg lib (snd kv))"] assms(2)
  show ?thesis
    by (auto simp: sortedAttrs_def scanAttrs_valid [OF v] distinct_sort_key simp del: map_map)
qed

lemma openTag_append: "openTag d (c @ b) key v pp = c @ openTag d b key v pp"
  by (simp add: openTag_def)

lemma finish_append:
  "finish cfg d (c @ b) key p e s n = (c @ fst (finish cfg d b key p e s n), snd (finish cfg d b key p e s n))"
  by (simp add: finish_def)

lemma mapHead_append:
  "mapHead cfg lib d (c @ b) key vv pp
     = (case mapHead cfg lib d b key vv pp of
          Inl done \<Rightarrow> Inl (c @ fst done, snd done)
        | Inr b' \<Rightarrow> Inr (c @ b'))"
  by (auto simp: mapHead_def finish_append [of cfg _ c] split: sum.splits option.splits)

lemma marshal_append:
  "marshalMapToXmlIndent cfg lib d (c @ b) key v pp
     = (c @ fst (marshalMapToXmlIndent cfg lib d b key v pp),
        snd (marshalMapToXmlIndent cfg lib d b key v pp))"
  "marshalElems cfg lib d (c @ b) p es
     = (c @ fst (marshalElems cfg lib d b p es), snd (marshalElems cfg lib d b p es))"
  "marshalList cfg lib d (c @ b) key p vs
     = (c @ fst (marshalList cfg lib d b key p vs), snd (marshalList cfg lib d b key p vs))"
proof (induct cfg lib d b key v pp and cfg lib d b p es and cfg lib d b key p vs
    arbitrary: c and c and c rule: marshalMapToXmlIndent_marshalElems_marshalList.induct)
  case (1 cfg lib d b key v pp)
  show ?case
  proof (cases "coerce lib v")
    case (Inl err)
    then show ?thesis
      by (simp add: marshalMapToXmlIndent.simps [of cfg lib d _ key v pp])
  next
    case (Inr val)
    note u = marshalMapToXmlIndent.simps [of cfg lib d _ key v pp]
    show ?thesis
    proof (cases val)
      case (MapV vv)
      show ?thesis
      proof (cases "mapHead cfg lib d (openTag d b key val pp) key vv pp")
        case (Inl dn)
        with Inr MapV show ?thesis
          by (simp add: u openTag_append mapHead_append)
      next
        case h: (Inr bb)
        note ih = 1(1) [OF Inr MapV h, of c]
        obtain b'' err p where m: "marshalElems cfg lib d bb (pp\<lparr>mapDepth := mapDepth pp + 1\<rparr>)
            (elemlist cfg vv) = (b'', err, p)"
          by (metis prod_cases3)
        with Inr MapV h ih show ?thesis
          by (cases err) (simp_all add: u openTag_append mapHead_append finish_append [of cfg _ c])
      qed
    next
      case (ListV vs)
      with Inr 1(2) [OF Inr ListV, of c] show ?thesis
        by (simp add: u openTag_append finish_append [of cfg _ c])
    next
      case (StrList ss)
      with Inr 1(3) [OF Inr StrList, of c] show ?thesis
        by (simp add: u openTag_append finish_append [of cfg _ c])
    qed (simp_all add: Inr u openTag_append finish_append [of cfg _ c])
  qed
next
  case (2 cfg lib d b p)
  then show ?case by simp
next
  case (3 cfg lib d b p kv elems)
  let ?p = "if \<not> is_ListV (snd kv) \<and> d then Indent p else p"
  obtain b' err where m: "marshalMapToXmlIndent cfg lib d b (fst kv) (snd kv) ?p = (b', err)"
    by (cases "marshalMapToXmlIndent cfg lib d b (fst kv) (snd kv) ?p")
  show ?case
  proof (cases err)
    case (Some e)
    with m 3(1) [of c] show ?thesis by simp
  next
    case None
    with m 3(1) [of c] 3(2) [OF m [symmetric] None, of c] show ?thesis by simp
  qed
next
  case (4 cfg lib d b key p)
  then show ?case by simp
next
  case (5 cfg lib d b key p v vs)
  let ?p = "if d then Indent p else p"
  obtain b' err where m: "marshalMapToXmlIndent cfg lib d b key v ?p = (b', err)"
    by (cases "marshalMapToXmlIndent cfg lib d b key v ?p")
  show ?case
  proof (cases err)
    case (Some e)
    with m 5(1) [of c] show ?thesis by simp
  next
    case None
    with m 5(1) [of c] 5(2) [OF m [symmetric] None, of c] show ?thesis by simp
  qed
qed


lemma Outdent_Indent: "0 \<le> cnt p \<Longrightarrow> Outdent (Indent p) = p"
  by (simp add: Outdent_def Indent_def)

lemma marshalElems_in_order:
  assumes "d \<longrightarrow> 0 \<le> cnt p"
    and "\<forall>kv \<in> set es. snd (marshalMapToXmlIndent cfg lib d [] (fst kv) (snd kv)
                              (if \<not> is_ListV (snd kv) \<and> d then Indent p else p)) = None"
  shows "marshalElems cfg lib d b p es
     = (b @ concat (map (\<lambda>kv. fst (marshalMapToXmlIndent cfg lib d [] (fst kv) (snd kv)
                                    (if \<not> is_ListV (snd kv) \<and> d then Indent p else p))) es),
        None, p)"
  using assms(2)
proof (induction es arbitrary: b)
  case Nil
  then show ?case by simp
next
  case (Cons kv es)
  let ?p = "if \<not> is_ListV (snd kv) \<and> d then Indent p else p"
  have m: "marshalMapToXmlIndent cfg lib d b (fst kv) (snd kv) ?p
      = (b @ fst (marshalMapToXmlIndent cfg lib d [] (fst kv) (snd kv) ?p), None)"
    using marshal_append(1) [of cfg lib d b "[]" "fst kv" "snd kv" ?p] Cons.prems by simp
  have o: "(if \<not> is_ListV (snd kv) \<and> d then Outdent (Indent p) else p) = p"
    using assms(1) by (simp add: Outdent_Indent)
  from Cons.prems have "\<forall>kv \<in> set es. snd (marshalMapToXmlIndent cfg lib d [] (fst kv) (snd kv)
                              (if \<not> is_ListV (snd kv) \<and> d then Indent p else p)) = None"
    by simp
  from Cons.IH [OF this] m o show ?case
    by simp
qed

lemma marshalElems_first_error:
  assumes "d \<longrightarrow> 0 \<le> cnt p"
    and "\<forall>kv \<in> set es. snd (marshalMapToXmlIndent cfg lib d [] (fst kv) (snd kv)
                              (if \<not> is_ListV (snd kv) \<and> d then Indent p else p)) = None"
    and "snd (marshalMapToXmlIndent cfg lib d [] (fst x) (snd x)
                (if \<not> is_ListV (snd x) \<and> d then Indent p else p)) = Some err"
  shows "marshalElems cfg lib d b p (es @ x # rest)
     = (b @ concat (map (\<lambda>kv. fst (marshalMapToXmlIndent cfg lib d [] (fst kv) (snd kv)
                                    (if \<not> is_ListV (snd kv) \<and> d then Indent p else p))) es)
          @ fst (marshalMapToXmlIndent cfg lib d [] (fst x) (snd x)
                   (if \<not> is_ListV (snd x) \<and> d then Indent p else p)),
        Some err, if \<not> is_ListV (snd x) \<and> d then Indent p else p)"
  using assms(2)
proof (induction es arbitrary: b)
  case Nil
  let ?p = "if \<not> is_ListV (snd x) \<and> d then Indent p else p"
  have "marshalMapToXmlIndent cfg lib d b (fst x) (snd x) ?p
      = (b @ fst (marshalMapToXmlIndent cfg lib d [] (fst x) (snd x) ?p), Some err)"
    using marshal_append(1) [of cfg lib d b "[]" "fst x" "snd x" ?p] assms(3) by simp
  then show ?case by simp
next
  case (Cons kv es)
  let ?p = "if \<not> is_ListV (snd kv) \<and> d then Indent p else p"
  have m: "marshalMapToXmlIndent cfg lib d b (fst kv) (snd kv) ?p
      = (b @ fst (marshalMapToXmlIndent cfg lib d [] (fst kv) (snd kv) ?p), None)"
    using marshal_append(1) [of cfg lib d b "[]" "fst kv" "snd kv" ?p] Cons.prems by simp
  have o: "(if \<not> is_ListV (snd kv) \<and> d then Outdent (Indent p) else p) = p"
    using assms(1) by (simp add: Outdent_Indent)
  from Cons.prems have "\<forall>kv \<in> set es. snd (marshalMapToXmlIndent cfg lib d [] (fst kv) (snd kv)
                              (if \<not> is_ListV (snd kv) \<and> d then Indent p else p)) = None"
    by simp
  from Cons.IH [OF this] m o show ?case
    by simp
qed

lemma writeAttrs_in_order:
  "writeAttrs al = concat (map (\<lambda>a. '' '' @ fst a @ ''='' @ [CHR 0x22] @ snd a @ [CHR 0x22]) al)"
  by (simp add: writeAttrs_def)

lemma encode_map_layout:
  assumes "sortedAttrs cfg lib vv = Inr al"
  shows "length al = length vv \<Longrightarrow>
      marshalMapToXmlIndent cfg lib d b key (MapV vv) pp
        = finish cfg d
            (openTag d b key (MapV vv) pp
               @ concat (map (\<lambda>a. '' '' @ fst a @ ''='' @ [CHR 0x22] @ snd a @ [CHR 0x22]) al)
               @ (if useGoXmlEmptyElemSyntax cfg then ''</'' @ key @ ''>'' else ''/>''))
            key pp False False 0"
    and "length al \<noteq> length vv \<Longrightarrow> map_of vv (textK cfg) = Some t \<Longrightarrow>
         length al + 1 = length vv \<Longrightarrow>
      marshalMapToXmlIndent cfg lib d b key (MapV vv) pp
        = finish cfg d
            (openTag d b key (MapV vv) pp
               @ concat (map (\<lambda>a. '' '' @ fst a @ ''='' @ [CHR 0x22] @ snd a @ [CHR 0x22]) al)
               @ ''>'' @ textOf cfg lib t)
            key pp True True 1"
    and "length al \<noteq> length vv \<Longrightarrow>
         \<not> (map_of vv (textK cfg) \<noteq> None \<and> length al + 1 = length vv) \<Longrightarrow>
         d \<longrightarrow> 0 \<le> cnt pp \<Longrightarrow>
         \<forall>kv \<in> set (elemlist cfg vv).
            snd (marshalMapToXmlIndent cfg lib d [] (fst kv) (snd kv)
                   (if \<not> is_ListV (snd kv) \<and> d then Indent (pp\<lparr>mapDepth := mapDepth pp + 1\<rparr>)
                    else pp\<lparr>mapDepth := mapDepth pp + 1\<rparr>)) = None \<Longrightarrow>
      marshalMapToXmlIndent cfg lib d b key (MapV vv) pp
        = finish cfg d
            (openTag d b key (MapV vv) pp
               @ concat (map (\<lambda>a. '' '' @ fst a @ ''='' @ [CHR 0x22] @ snd a @ [CHR 0x22]) al)
               @ ''>''
               @ (case map_of vv (textK cfg) of Some t \<Rightarrow> textOf cfg lib t | None \<Rightarrow> [])
               @ (if d then [CHR 0x0A] else [])
               @ concat (map (\<lambda>kv. fst (marshalMapToXmlIndent cfg lib d [] (fst kv) (snd kv)
                          (if \<not> is_ListV (snd kv) \<and> d
                           then Indent (pp\<lparr>mapDepth := mapDepth pp + 1\<rparr>)
                           else pp\<lparr>mapDepth := mapDepth pp + 1\<rparr>)))
                    (elemlist cfg vv)))
            key pp True False 1"
proof -
  note u = marshalMapToXmlIndent.simps [of cfg lib d b key "MapV vv" pp]
  show "length al = length vv \<Longrightarrow>
      marshalMapToXmlIndent cfg lib d b key (MapV vv) pp
        = finish cfg d
            (openTag d b key (MapV vv) pp
               @ concat (map (\<lambda>a. '' '' @ fst a @ ''='' @ [CHR 0x22] @ snd a @ [CHR 0x22]) al)
               @ (if useGoXmlEmptyElemSyntax cfg then ''</'' @ key @ ''>'' else ''/>''))
            key pp False False 0"
    using assms by (simp add: u coerce_def mapHead_def writeAttrs_in_order)
  show "length al \<noteq> length vv \<Longrightarrow> map_of vv (textK cfg) = Some t \<Longrightarrow>
         length al + 1 = length vv \<Longrightarrow>
      marshalMapToXmlIndent cfg lib d b key (MapV vv) pp
        = finish cfg d
            (openTag d b key (MapV vv) pp
               @ concat (map (\<lambda>a. '' '' @ fst a @ ''='' @ [CHR 0x22] @ snd a @ [CHR 0x22]) al)
               @ ''>'' @ textOf cfg lib t)
            key pp True True 1"
    using assms by (simp add: u coerce_def mapHead_def writeAttrs_in_order)
  assume a: "length al \<noteq> length vv"
    "\<not> (map_of vv (textK cfg) \<noteq> None \<and> length al + 1 = length vv)"
    "d \<longrightarrow> 0 \<le> cnt pp"
    "\<forall>kv \<in> set (elemlist cfg vv).
            snd (marshalMapToXmlIndent cfg lib d [] (fst kv) (snd kv)
                   (if \<not> is_ListV (snd kv) \<and> d then Indent (pp\<lparr>mapDepth := mapDepth pp + 1\<rparr>)
                    else pp\<lparr>mapDepth := mapDepth pp + 1\<rparr>)) = None"
  let ?head = "openTag d b key (MapV vv) pp
               @ concat (map (\<lambda>a. '' '' @ fst a @ ''='' @ [CHR 0x22] @ snd a @ [CHR 0x22]) al)
               @ ''>''
               @ (case map_of vv (textK cfg) of Some t \<Rightarrow> textOf cfg lib t | None \<Rightarrow> [])
               @ (if d then [CHR 0x0A] else [])"
  have h: "mapHead cfg lib d (openTag d b key (MapV vv) pp) key vv pp = Inr ?head"
    using assms a(1,2) by (auto simp: mapHead_def writeAttrs_in_order split: option.splits)
  have c: "0 \<le> cnt (pp\<lparr>mapDepth := mapDepth pp + 1\<rparr>)" if d
    using a(3) that by simp
  have e: "marshalElems cfg lib d ?head (pp\<lparr>mapDepth := mapDepth pp + 1\<rparr>) (elemlist cfg vv)
      = (?head @ concat (map (\<lambda>kv. fst (marshalMapToXmlIndent cfg lib d [] (fst kv) (snd kv)
                          (if \<not> is_ListV (snd kv) \<and> d
                           then Indent (pp\<lparr>mapDepth := mapDepth pp + 1\<rparr>)
                           else pp\<lparr>mapDepth := mapDepth pp + 1\<rparr>)))
                    (elemlist cfg vv)), None, pp\<lparr>mapDepth := mapDepth pp + 1\<rparr>)"
    by (rule marshalElems_in_order) (use c a(4) in auto)
  have f: "finish cfg d x key (q\<lparr>mapDepth := m\<rparr>) True False 1 = finish cfg d x key q True False 1"
    for x m q
    by (simp add: finish_def)
  have co: "coerce lib (MapV vv) = Inr (MapV vv)"
    by (simp add: coerce_def)
  show "marshalMapToXmlIndent cfg lib d b key (MapV vv) pp
        = finish cfg d
            (openTag d b key (MapV vv) pp
               @ concat (map (\<lambda>a. '' '' @ fst a @ ''='' @ [CHR 0x22] @ snd a @ [CHR 0x22]) al)
               @ ''>''
               @ (case map_of vv (textK cfg) of Some t \<Rightarrow> textOf cfg lib t | None \<Rightarrow> [])
               @ (if d then [CHR 0x0A] else [])
               @ concat (map (\<lambda>kv. fst (marshalMapToXmlIndent cfg lib d [] (fst kv) (snd kv)
                          (if \<not> is_ListV (snd kv) \<and> d
                           then Indent (pp\<lparr>mapDepth := mapDepth pp + 1\<rparr>)
                           else pp\<lparr>mapDepth := mapDepth pp + 1\<rparr>)))
                    (elemlist cfg vv)))
            key pp True False 1"
    unfolding u co by (simp only: sum.case gval.case h e prod.case option.case f append_assoc)
qed


lemma encode_map_first_error:
  assumes "sortedAttrs cfg lib vv = Inr al"
    and "length al \<noteq> length vv"
    and "\<not> (map_of vv (textK cfg) \<noteq> None \<and> length al + 1 = length vv)"
    and "d \<longrightarrow> 0 \<le> cnt pp"
    and "elemlist cfg vv = es @ x # rest"
    and "\<forall>kv \<in> set es.
            snd (marshalMapToXmlIndent cfg lib d [] (fst kv) (snd kv)
                   (if \<not> is_ListV (snd kv) \<and> d then Indent (pp\<lparr>mapDepth := mapDepth pp + 1\<rparr>)
                    else pp\<lparr>mapDepth := mapDepth pp + 1\<rparr>)) = None"
    and "snd (marshalMapToXmlIndent cfg lib d [] (fst x) (snd x)
                   (if \<not> is_ListV (snd x) \<and> d then Indent (pp\<lparr>mapDepth := mapDepth pp + 1\<rparr>)
                    else pp\<lparr>mapDepth := mapDepth pp + 1\<rparr>)) = Some err"
  shows "marshalMapToXmlIndent cfg lib d b key (MapV vv) pp
        = (openTag d b key (MapV vv) pp
             @ concat (map (\<lambda>a. '' '' @ fst a @ ''='' @ [CHR 0x22] @ snd a @ [CHR 0x22]) al)
             @ ''>''
             @ (case map_of vv (textK cfg) of Some t \<Rightarrow> textOf cfg lib t | None \<Rightarrow> [])
             @ (if d then [CHR 0x0A] else [])
             @ concat (map (\<lambda>kv. fst (marshalMapToXmlIndent cfg lib d [] (fst kv) (snd kv)
                        (if \<not> is_ListV (snd kv) \<and> d
                         then Indent (pp\<lparr>mapDepth := mapDepth pp + 1\<rparr>)
                         else pp\<lparr>mapDepth := mapDepth pp + 1\<rparr>))) es)
             @ fst (marshalMapToXmlIndent cfg lib d [] (fst x) (snd x)
                      (if \<not> is_ListV (snd x) \<and> d
                       then Indent (pp\<lparr>mapDepth := mapDepth pp + 1\<rparr>)
                       else pp\<lparr>mapDepth := mapDepth pp + 1\<rparr>)),
           Some err)"
proof -
  note u = marshalMapToXmlIndent.simps [of cfg lib d b key "MapV vv" pp]
  let ?head = "openTag d b key (MapV vv) pp
               @ concat (map (\<lambda>a. '' '' @ fst a @ ''='' @ [CHR 0x22] @ snd a @ [CHR 0x22]) al)
               @ ''>''
               @ (case map_of vv (textK cfg) of Some t \<Rightarrow> textOf cfg lib t | None \<Rightarrow> [])
               @ (if d then [CHR 0x0A] else [])"
  have h: "mapHead cfg lib d (openTag d b key (MapV vv) pp) key vv pp = Inr ?head"
    using assms(1,2,3) by (auto simp: mapHead_def writeAttrs_in_order split: option.splits)
  have c: "d \<longrightarrow> 0 \<le> cnt (pp\<lparr>mapDepth := mapDepth pp + 1\<rparr>)"
    using assms(4) by simp
  note e = marshalElems_first_error [OF c assms(6,7), of ?head rest]
  have co: "coerce lib (MapV vv) = Inr (MapV vv)"
    by (simp add: coerce_def)
  show ?thesis
    unfolding u co
    by (simp only: sum.case gval.case h assms(5) e prod.case option.case append_assoc)
qed

text \<open>
  C6. Let a map be given by its entries in the order of one iteration, and let no
  attribute of it have an invalid value, so that something is written for it. Its
  attributes are the entries whose key carries the attribute prefix, in the strictly
  ascending order of their names without the prefix; its elements are the entries that
  are neither an attribute nor the text entry, in the ascending order of their keys;
  another iteration over the same entries gives the same two lists, and the same output.
  The bytes are written in that order: behind the opening of the tag come the attributes,
  one after the other in the order of the sorted list, then (unless the map has attributes
  only) the text entry, then the elements, each as the encoder writes it on its own, one
  after the other in the order of the sorted list, up to the first that fails, whose error
  is returned.
\<close>

theorem C6_canonical_order:
  fixes cfg :: config and lib :: golib and doIndent :: bool and b key :: string and pp :: pretty
    and vv vv' :: gmap and al :: "(string \<times> string) list"
    and attr :: "string \<times> string \<Rightarrow> string" and enc :: "string \<times> gval \<Rightarrow> string \<times> error option"
    and head :: string
  defines "attr \<equiv> \<lambda>a. '' '' @ fst a @ ''='' @ [CHR 0x22] @ snd a @ [CHR 0x22]"
    and "enc \<equiv> \<lambda>kv. marshalMapToXmlIndent cfg lib doIndent [] (fst kv) (snd kv)
                  (if \<not> is_ListV (snd kv) \<and> doIndent
                   then Indent (pp\<lparr>mapDepth := mapDepth pp + 1\<rparr>)
                   else pp\<lparr>mapDepth := mapDepth pp + 1\<rparr>)"
    and "head \<equiv> openTag doIndent b key (MapV vv) pp @ concat (map attr al) @ ''>''
                  @ (case map_of vv (textK cfg) of Some t \<Rightarrow> textOf cfg lib t | None \<Rightarrow> [])
                  @ (if doIndent then [CHR 0x0A] else [])"
  assumes "distinct (map fst vv)" and "distinct (map fst vv')" and "set vv' = set vv"
    and "sortedAttrs cfg lib vv = Inr al"
  shows "sorted (map fst al) \<and> distinct (map fst al)
       \<and> set al = (\<lambda>kv. (drop (lenAttrPrefix cfg) (fst kv), the (attrValue cfg lib (snd kv))))
                    ` {kv \<in> set vv. isAttrKey cfg (fst kv)}
       \<and> sorted (map fst (elemlist cfg vv))
       \<and> set (elemlist cfg vv)
           = {kv \<in> set vv. fst kv \<noteq> textK cfg \<and> \<not> isAttrKey cfg (fst kv)}
       \<and> sortedAttrs cfg lib vv' = Inr al
       \<and> elemlist cfg vv' = elemlist cfg vv
       \<and> marshalMapToXmlIndent cfg lib doIndent b key (MapV vv') pp
           = marshalMapToXmlIndent cfg lib doIndent b key (MapV vv) pp
       \<and> (length al = length vv \<longrightarrow>
            marshalMapToXmlIndent cfg lib doIndent b key (MapV vv) pp
              = finish cfg doIndent
                  (openTag doIndent b key (MapV vv) pp @ concat (map attr al)
                     @ (if useGoXmlEmptyElemSyntax cfg then ''</'' @ key @ ''>'' else ''/>''))
                  key pp False False 0)
       \<and> (length al \<noteq> length vv \<and> map_of vv (textK cfg) = Some t
            \<and> length al + 1 = length vv \<longrightarrow>
            marshalMapToXmlIndent cfg lib doIndent b key (MapV vv) pp
              = finish cfg doIndent
                  (openTag doIndent b key (MapV vv) pp @ concat (map attr al)
                     @ ''>'' @ textOf cfg lib t)
                  key pp True True 1)
       \<and> (length al \<noteq> length vv
            \<and> \<not> (map_of vv (textK cfg) \<noteq> None \<and> length al + 1 = length vv)
            \<and> (doIndent \<longrightarrow> 0 \<le> cnt pp)
            \<and> (\<forall>kv \<in> set (elemlist cfg vv). snd (enc kv) = None) \<longrightarrow>
            marshalMapToXmlIndent cfg lib doIndent b key (MapV vv) pp
              = finish cfg doIndent
                  (head @ concat (map (\<lambda>kv. fst (enc kv)) (elemlist cfg vv)))
                  key pp True False 1)
       \<and> (length al \<noteq> length vv
            \<and> \<not> (map_of vv (textK cfg) \<noteq> None \<and> length al + 1 = length vv)
            \<and> (doIndent \<longrightarrow> 0 \<le> cnt pp)
            \<and> elemlist cfg vv = es @ x # rest
            \<and> (\<forall>kv \<in> set es. snd (enc kv) = None) \<and> snd (enc x) = Some err \<longrightarrow>
            marshalMapToXmlIndent cfg lib doIndent b key (MapV vv) pp
              = (head @ concat (map (\<lambda>kv. fst (enc kv)) es) @ fst (enc x), Some err))"
proof -
  note s = assms(4-7)
  have 1: "length al = length vv \<longrightarrow>
            marshalMapToXmlIndent cfg lib doIndent b key (MapV vv) pp
              = finish cfg doIndent
                  (openTag doIndent b key (MapV vv) pp @ concat (map attr al)
                     @ (if useGoXmlEmptyElemSyntax cfg then ''</'' @ key @ ''>'' else ''/>''))
                  key pp False False 0"
    unfolding attr_def using encode_map_layout(1) [OF s(4)] by blast
  have 2: "length al \<noteq> length vv \<and> map_of vv (textK cfg) = Some t
            \<and> length al + 1 = length vv \<longrightarrow>
            marshalMapToXmlIndent cfg lib doIndent b key (MapV vv) pp
              = finish cfg doIndent
                  (openTag doIndent b key (MapV vv) pp @ concat (map attr al)
                     @ ''>'' @ textOf cfg lib t)
                  key pp True True 1"
    unfolding attr_def using encode_map_layout(2) [OF s(4)] by blast
  have 3: "length al \<noteq> length vv
            \<and> \<not> (map_of vv (textK cfg) \<noteq> None \<and> length al + 1 = length vv)
            \<and> (doIndent \<longrightarrow> 0 \<le> cnt pp)
            \<and> (\<forall>kv \<in> set (elemlist cfg vv). snd (enc kv) = None) \<longrightarrow>
            marshalMapToXmlIndent cfg lib doIndent b key (MapV vv) pp
              = finish cfg doIndent
                  (head @ concat (map (\<lambda>kv. fst (enc kv)) (elemlist cfg vv)))
                  key pp True False 1"
    unfolding attr_def enc_def head_def
    using encode_map_layout(3) [OF s(4), of doIndent pp b key] by (simp only: append_assoc) blast
  have 4: "length al \<noteq> length vv
            \<and> \<not> (map_of vv (textK cfg) \<noteq> None \<and> length al + 1 = length vv)
            \<and> (doIndent \<longrightarrow> 0 \<le> cnt pp)
            \<and> elemlist cfg vv = es @ x # rest
            \<and> (\<forall>kv \<in> set es. snd (enc kv) = None) \<and> snd (enc x) = Some err \<longrightarrow>
            marshalMapToXmlIndent cfg lib doIndent b key (MapV vv) pp
              = (head @ concat (map (\<lambda>kv. fst (enc kv)) es) @ fst (enc x), Some err)"
    unfolding attr_def enc_def head_def
    using encode_map_first_error [OF s(4), of doIndent pp es x rest err b key]
    by (simp only: append_assoc) blast
  from sortedAttrs_sorted [OF s(4)] sortedAttrs_distinct [OF s(1,4)]
    elemlist_sorted [of cfg vv] sortedAttrs_unique [OF s] elemlist_unique [OF s(1,2,3)]
    encode_unique [OF s] 1 2 3 4
  show ?thesis
    by simp
qed


theorem C6_canonical_order_witness:
  "distinct (map fst [(''-b'', Str ''2''), (''x'', Str ''1''), (''$'', Str ''t''), (''-a'', IntV 1),
      (''c'', Bool True)])
   \<and> distinct (map fst [(''c'', Bool True), (''-a'', IntV 1), (''x'', Str ''1''), (''-b'', Str ''2''),
      (''$'', Str ''t'')])
   \<and> set [(''c'', Bool True), (''-a'', IntV 1), (''x'', Str ''1''), (''-b'', Str ''2''),
      (''$'', Str ''t'')]
     = set [(''-b'', Str ''2''), (''x'', Str ''1''), (''$'', Str ''t''), (''-a'', IntV 1),
      (''c'', Bool True)]
   \<and> sortedAttrs defaults example_lib [(''c'', Bool True), (''-a'', IntV 1), (''x'', Str ''1''),
      (''-b'', Str ''2''), (''$'', Str ''t'')] = Inr [(''a'', ''1''), (''b'', ''2'')]
   \<and> elemlist defaults [(''c'', Bool True), (''-a'', IntV 1), (''x'', Str ''1''),
      (''-b'', Str ''2''), (''$'', Str ''t'')] = [(''c'', Bool True), (''x'', Str ''1'')]
   \<and> marshalMapToXmlIndent defaults example_lib False [] ''e''
        (MapV [(''-b'', Str ''2''), (''x'', Str ''1''), (''$'', Str ''t''), (''-a'', IntV 1),
               (''c'', Bool True)])
        \<lparr>indent = [], cnt = 0, padding = [], mapDepth = 0, start = 0\<rparr>
     = (''<e a='' @ [CHR 0x22] @ ''1'' @ [CHR 0x22] @ '' b='' @ [CHR 0x22] @ ''2''
          @ [CHR 0x22] @ ''>t<c>true</c><x>1</x></e>'', None)
   \<and> Xml defaults example_lib [(''e'', MapV [(''-b'', Str ''2''), (''x'', Str ''1''),
        (''$'', Str ''t''), (''-a'', IntV 1), (''c'', Bool True)])] []
     = (Some (''<e a='' @ [CHR 0x22] @ ''1'' @ [CHR 0x22] @ '' b='' @ [CHR 0x22] @ ''2''
          @ [CHR 0x22] @ ''>t<c>true</c><x>1</x></e>''), None)
   \<and> Xml defaults example_lib [(''e'', MapV [(''c'', Bool True), (''-a'', IntV 1), (''x'', Str ''1''),
        (''-b'', Str ''2''), (''$'', Str ''t'')])] []
     = (Some (''<e a='' @ [CHR 0x22] @ ''1'' @ [CHR 0x22] @ '' b='' @ [CHR 0x22] @ ''2''
          @ [CHR 0x22] @ ''>t<c>true</c><x>1</x></e>''), None)
   \<and> sortedAttrs defaults example_lib [(''-b'', Str ''2''), (''-a'', Str ''1'')]
     = Inr [(''a'', ''1''), (''b'', ''2'')]
   \<and> marshalMapToXmlIndent defaults example_lib False [] ''e''
        (MapV [(''-b'', Str ''2''), (''-a'', Str ''1'')])
        \<lparr>indent = [], cnt = 0, padding = [], mapDepth = 0, start = 0\<rparr>
     = (''<e a='' @ [CHR 0x22] @ ''1'' @ [CHR 0x22] @ '' b='' @ [CHR 0x22] @ ''2''
          @ [CHR 0x22] @ ''/>'', None)
   \<and> elemlist defaults [(''z'', Str ''9''), (''m'', Struct ''T'' ''{}'' (Inl ''unsupported'')),
        (''a'', Str ''1'')]
     = [(''a'', Str ''1'')] @ (''m'', Struct ''T'' ''{}'' (Inl ''unsupported'')) # [(''z'', Str ''9'')]
   \<and> marshalMapToXmlIndent defaults example_lib False [] ''e''
        (MapV [(''z'', Str ''9''), (''m'', Struct ''T'' ''{}'' (Inl ''unsupported'')),
               (''a'', Str ''1'')])
        \<lparr>indent = [], cnt = 0, padding = [], mapDepth = 0, start = 0\<rparr>
     = (''<e><a>1</a>'', Some (Error ''unsupported''))"
proof -
  let ?vv = "[(''-b'', Str ''2''), (''x'', Str ''1''), (''$'', Str ''t''), (''-a'', IntV 1),
      (''c'', Bool True)]"
  let ?vv' = "[(''c'', Bool True), (''-a'', IntV 1), (''x'', Str ''1''), (''-b'', Str ''2''),
      (''$'', Str ''t'')]"
  let ?p = "\<lparr>indent = [], cnt = 0, padding = [], mapDepth = 0, start = 0\<rparr>"
  let ?q = "\<lparr>indent = [], cnt = 0, padding = [], mapDepth = 1, start = 0\<rparr>"
  have d: "distinct (map fst ?vv)" "distinct (map fst ?vv')"
    by simp_all
  have s: "set ?vv' = set ?vv"
    by auto
  have a: "sortedAttrs defaults example_lib ?vv = Inr [(''a'', ''1''), (''b'', ''2'')]"
    by code_simp
  have e: "elemlist defaults ?vv = [(''c'', Bool True), (''x'', Str ''1'')]"
    by code_simp
  have h: "length [(''a'', ''1''), (''b'', ''2'')] \<noteq> length ?vv
      \<and> \<not> (map_of ?vv (textK defaults) \<noteq> None
           \<and> length [(''a'', ''1''), (''b'', ''2'')] + 1 = length ?vv)
      \<and> (False \<longrightarrow> 0 \<le> cnt ?p)
      \<and> (\<forall>kv \<in> set (elemlist defaults ?vv).
            snd (marshalMapToXmlIndent defaults example_lib False [] (fst kv) (snd kv)
                  (if \<not> is_ListV (snd kv) \<and> False then Indent (?p\<lparr>mapDepth := mapDepth ?p + 1\<rparr>)
                   else ?p\<lparr>mapDepth := mapDepth ?p + 1\<rparr>)) = None)"
    by code_simp
  have f: "finish defaults False
             ((openTag False [] ''e'' (MapV ?vv) ?p
                 @ concat (map (\<lambda>a. '' '' @ fst a @ ''='' @ [CHR 0x22] @ snd a @ [CHR 0x22])
                             [(''a'', ''1''), (''b'', ''2'')])
                 @ ''>''
                 @ (case map_of ?vv (textK defaults) of
                      Some t \<Rightarrow> textOf defaults example_lib t | None \<Rightarrow> [])
                 @ (if False then [CHR 0x0A] else []))
              @ concat (map (\<lambda>kv. fst (marshalMapToXmlIndent defaults example_lib False []
                                (fst kv) (snd kv)
                                (if \<not> is_ListV (snd kv) \<and> False
                                 then Indent (?p\<lparr>mapDepth := mapDepth ?p + 1\<rparr>)
                                 else ?p\<lparr>mapDepth := mapDepth ?p + 1\<rparr>)))
                          (elemlist defaults ?vv)))
             ''e'' ?p True False 1
           = (''<e a='' @ [CHR 0x22] @ ''1'' @ [CHR 0x22] @ '' b='' @ [CHR 0x22] @ ''2''
                @ [CHR 0x22] @ ''>t<c>true</c><x>1</x></e>'', None)"
    by code_simp
  have x: "Xml defaults example_lib [(''e'', MapV ?vv)] []
     = (Some (''<e a='' @ [CHR 0x22] @ ''1'' @ [CHR 0x22] @ '' b='' @ [CHR 0x22] @ ''2''
          @ [CHR 0x22] @ ''>t<c>true</c><x>1</x></e>''), None)"
    by code_simp
  have x': "Xml defaults example_lib [(''e'', MapV ?vv')] []
     = (Some (''<e a='' @ [CHR 0x22] @ ''1'' @ [CHR 0x22] @ '' b='' @ [CHR 0x22] @ ''2''
          @ [CHR 0x22] @ ''>t<c>true</c><x>1</x></e>''), None)"
    by code_simp
  let ?v1 = "[(''-b'', Str ''2''), (''-a'', Str ''1'')]"
  let ?m = "(''m'', Struct ''T'' ''{}'' (Inl ''unsupported''))"
  let ?v2 = "[(''z'', Str ''9''), ?m, (''a'', Str ''1'')]"
  have d1: "distinct (map fst ?v1)" and d2: "distinct (map fst ?v2)"
    by simp_all
  have a1: "sortedAttrs defaults example_lib ?v1 = Inr [(''a'', ''1''), (''b'', ''2'')]"
    and a2: "sortedAttrs defaults example_lib ?v2 = Inr []"
    by code_simp+
  have l1: "length [(''a'', ''1''), (''b'', ''2'')] = length ?v1"
    by simp
  have f1: "finish defaults False
         (openTag False [] ''e'' (MapV ?v1) ?p
            @ concat (map (\<lambda>a. '' '' @ fst a @ ''='' @ [CHR 0x22] @ snd a @ [CHR 0x22])
                        [(''a'', ''1''), (''b'', ''2'')])
            @ (if useGoXmlEmptyElemSyntax defaults then ''</'' @ ''e'' @ ''>'' else ''/>''))
         ''e'' ?p False False 0
       = (''<e a='' @ [CHR 0x22] @ ''1'' @ [CHR 0x22] @ '' b='' @ [CHR 0x22] @ ''2''
          @ [CHR 0x22] @ ''/>'', None)"
    by code_simp
  have e2: "elemlist defaults ?v2 = [(''a'', Str ''1'')] @ ?m # [(''z'', Str ''9'')]"
    by code_simp
  have h2: "length ([] :: (string \<times> string) list) \<noteq> length ?v2
      \<and> \<not> (map_of ?v2 (textK defaults) \<noteq> None
           \<and> length ([] :: (string \<times> string) list) + 1 = length ?v2)
      \<and> (False \<longrightarrow> 0 \<le> cnt ?p)
      \<and> (\<forall>kv \<in> set [(''a'', Str ''1'')].
            snd (marshalMapToXmlIndent defaults example_lib False [] (fst kv) (snd kv)
                  (if \<not> is_ListV (snd kv) \<and> False then Indent (?p\<lparr>mapDepth := mapDepth ?p + 1\<rparr>)
                   else ?p\<lparr>mapDepth := mapDepth ?p + 1\<rparr>)) = None)
      \<and> snd (marshalMapToXmlIndent defaults example_lib False [] (fst ?m) (snd ?m)
                  (if \<not> is_ListV (snd ?m) \<and> False then Indent (?p\<lparr>mapDepth := mapDepth ?p + 1\<rparr>)
                   else ?p\<lparr>mapDepth := mapDepth ?p + 1\<rparr>)) = Some (Error ''unsupported'')"
    by code_simp
  have f2: "((openTag False [] ''e'' (MapV ?v2) ?p
            @ concat (map (\<lambda>a. '' '' @ fst a @ ''='' @ [CHR 0x22] @ snd a @ [CHR 0x22]) [])
            @ ''>''
            @ (case map_of ?v2 (textK defaults) of
                 Some t \<Rightarrow> textOf defaults example_lib t | None \<Rightarrow> [])
            @ (if False then [CHR 0x0A] else []))
         @ concat (map (\<lambda>kv. fst (marshalMapToXmlIndent defaults example_lib False []
                           (fst kv) (snd kv)
                           (if \<not> is_ListV (snd kv) \<and> False
                            then Indent (?p\<lparr>mapDepth := mapDepth ?p + 1\<rparr>)
                            else ?p\<lparr>mapDepth := mapDepth ?p + 1\<rparr>)))
                     [(''a'', Str ''1'')])
         @ fst (marshalMapToXmlIndent defaults example_lib False [] (fst ?m) (snd ?m)
                  (if \<not> is_ListV (snd ?m) \<and> False
                   then Indent (?p\<lparr>mapDepth := mapDepth ?p + 1\<rparr>)
                   else ?p\<lparr>mapDepth := mapDepth ?p + 1\<rparr>)),
        Some (Error ''unsupported''))
      = (''<e><a>1</a>'', Some (Error ''unsupported''))"
    by code_simp
  note c6 = C6_canonical_order [OF d s a, where doIndent = False and b = "[]" and key = "''e''"
      and pp = ?p]
  from c6 have "sortedAttrs defaults example_lib ?vv' = Inr [(''a'', ''1''), (''b'', ''2'')]"
    and "elemlist defaults ?vv' = elemlist defaults ?vv"
    by blast+
  moreover from c6 h
  have "marshalMapToXmlIndent defaults example_lib False [] ''e'' (MapV ?vv) ?p
     = finish defaults False
             ((openTag False [] ''e'' (MapV ?vv) ?p
                 @ concat (map (\<lambda>a. '' '' @ fst a @ ''='' @ [CHR 0x22] @ snd a @ [CHR 0x22])
                             [(''a'', ''1''), (''b'', ''2'')])
                 @ ''>''
                 @ (case map_of ?vv (textK defaults) of
                      Some t \<Rightarrow> textOf defaults example_lib t | None \<Rightarrow> [])
                 @ (if False then [CHR 0x0A] else []))
              @ concat (map (\<lambda>kv. fst (marshalMapToXmlIndent defaults example_lib False []
                                (fst kv) (snd kv)
                                (if \<not> is_ListV (snd kv) \<and> False
                                 then Indent (?p\<lparr>mapDepth := mapDepth ?p + 1\<rparr>)
                                 else ?p\<lparr>mapDepth := mapDepth ?p + 1\<rparr>)))
                          (elemlist defaults ?vv)))
             ''e'' ?p True False 1"
    by blast
  then have "marshalMapToXmlIndent defaults example_lib False [] ''e'' (MapV ?vv) ?p
     = (''<e a='' @ [CHR 0x22] @ ''1'' @ [CHR 0x22] @ '' b='' @ [CHR 0x22] @ ''2''
          @ [CHR 0x22] @ ''>t<c>true</c><x>1</x></e>'', None)"
    using f by (rule trans)
  moreover have "sortedAttrs defaults example_lib ?v1 = Inr [(''a'', ''1''), (''b'', ''2'')]"
    by (rule a1)
  moreover from C6_canonical_order [OF d1 d1 refl a1, where doIndent = False and b = "[]"
      and key = "''e''" and pp = ?p] l1
  have "marshalMapToXmlIndent defaults example_lib False [] ''e'' (MapV ?v1) ?p
     = finish defaults False
         (openTag False [] ''e'' (MapV ?v1) ?p
            @ concat (map (\<lambda>a. '' '' @ fst a @ ''='' @ [CHR 0x22] @ snd a @ [CHR 0x22])
                        [(''a'', ''1''), (''b'', ''2'')])
            @ (if useGoXmlEmptyElemSyntax defaults then ''</'' @ ''e'' @ ''>'' else ''/>''))
         ''e'' ?p False False 0"
    by blast
  then have "marshalMapToXmlIndent defaults example_lib False [] ''e'' (MapV ?v1) ?p
     = (''<e a='' @ [CHR 0x22] @ ''1'' @ [CHR 0x22] @ '' b='' @ [CHR 0x22] @ ''2''
          @ [CHR 0x22] @ ''/>'', None)"
    using f1 by (rule trans)
  moreover have "elemlist defaults ?v2 = [(''a'', Str ''1'')] @ ?m # [(''z'', Str ''9'')]"
    by (rule e2)
  moreover from C6_canonical_order [OF d2 d2 refl a2, where doIndent = False and b = "[]"
      and key = "''e''" and pp = ?p and es = "[(''a'', Str ''1'')]" and x = ?m
      and rest = "[(''z'', Str ''9'')]" and err = "Error ''unsupported''"] h2 e2
  have "marshalMapToXmlIndent defaults example_lib False [] ''e'' (MapV ?v2) ?p
     = ((openTag False [] ''e'' (MapV ?v2) ?p
            @ concat (map (\<lambda>a. '' '' @ fst a @ ''='' @ [CHR 0x22] @ snd a @ [CHR 0x22]) [])
            @ ''>''
            @ (case map_of ?v2 (textK defaults) of
                 Some t \<Rightarrow> textOf defaults example_lib t | None \<Rightarrow> [])
            @ (if False then [CHR 0x0A] else []))
         @ concat (map (\<lambda>kv. fst (marshalMapToXmlIndent defaults example_lib False []
                           (fst kv) (snd kv)
                           (if \<not> is_ListV (snd kv) \<and> False
                            then Indent (?p\<lparr>mapDepth := mapDepth ?p + 1\<rparr>)
                            else ?p\<lparr>mapDepth := mapDepth ?p + 1\<rparr>)))
                     [(''a'', Str ''1'')])
         @ fst (marshalMapToXmlIndent defaults example_lib False [] (fst ?m) (snd ?m)
                  (if \<not> is_ListV (snd ?m) \<and> False
                   then Indent (?p\<lparr>mapDepth := mapDepth ?p + 1\<rparr>)
                   else ?p\<lparr>mapDepth := mapDepth ?p + 1\<rparr>)),
        Some (Error ''unsupported''))"
    by blast
  then have "marshalMapToXmlIndent defaults example_lib False [] ''e'' (MapV ?v2) ?p
     = (''<e><a>1</a>'', Some (Error ''unsupported''))"
    using f2 by (rule trans)
  ultimately show ?thesis
    using d s e x x' by simp
qed

end
